theory Spec2Isabelle
  imports Main "HOL-Library.Word"
begin

section \<open>Types of the trading engine (types.hpp)\<close>

text \<open>
  The engine's integers are 64-bit: \<open>OrderId\<close>, \<open>UserId\<close> and \<open>Quantity\<close> are
  \<open>uint64_t\<close>, \<open>Price\<close> and every balance are \<open>int64_t\<close>. All of them are
  \<open>64 word\<close> here; the unsigned ones are compared with \<open><\<close> and \<open>\<le>\<close>, the signed
  ones with \<open><s\<close> and \<open>\<le>s\<close>. Arithmetic wraps around; where a statement depends on
  the absence of signed overflow (undefined in C++), it says so through \<open>sint\<close>.
\<close>

type_synonym OrderId = "64 word"
type_synonym UserId = "64 word"
type_synonym Price = "64 word"
type_synonym Quantity = "64 word"

datatype Side = BUY | SELL

datatype OrderType = LIMIT | MARKET

datatype TimeInForce = GFD | IOC | FOK

datatype OrderStatus = PENDING | PARTIALLY_FILLED | FILLED | CANCELLED | REJECTED

datatype ErrorCode =
    SUCCESS
  | INVALID_SYMBOL
  | INVALID_QUANTITY
  | INVALID_PRICE
  | INSUFFICIENT_BALANCE
  | ORDER_NOT_FOUND
  | DUPLICATE_ORDER
  | SYSTEM_ERROR

record Order =
  orderId :: OrderId
  userId :: UserId
  symbol :: string
  side :: Side
  orderType :: OrderType
  timeInForce :: TimeInForce
  price :: Price
  quantity :: Quantity
  filledQuantity :: Quantity
  status :: OrderStatus

record Trade =
  tradeId :: "64 word"
  buyOrderId :: OrderId
  sellOrderId :: OrderId
  buyUserId :: UserId
  sellUserId :: UserId
  tradeSymbol :: string
  tradePrice :: Price
  tradeQuantity :: Quantity

record UserBalance =
  balanceUserId :: UserId
  availableBalance :: "64 word"
  lockedBalance :: "64 word"

section \<open>Balance ledger (balance_service.cpp)\<close>

text \<open>
  \<open>balances_\<close> is a \<open>std::map<UserId, UserBalance>\<close>. Every operation returns the
  updated map next to its result. \<open>getOrCreateBalance\<close> returns a reference into the
  map; here it returns the entry and the map that now holds it, and a write through the
  reference is an update of the map at that user id.
\<close>

type_synonym Balances = "UserId \<rightharpoonup> UserBalance"

definition newBalance :: "UserId \<Rightarrow> UserBalance" where
  "newBalance u = \<lparr>balanceUserId = u, availableBalance = 0, lockedBalance = 0\<rparr>"

definition getOrCreateBalance :: "UserId \<Rightarrow> Balances \<Rightarrow> UserBalance \<times> Balances" where
  "getOrCreateBalance u bs =
     (case bs u of
        None \<Rightarrow> (newBalance u, bs(u \<mapsto> newBalance u))
      | Some b \<Rightarrow> (b, bs))"

definition initializeBalance :: "UserId \<Rightarrow> 64 word \<Rightarrow> Balances \<Rightarrow> Balances" where
  "initializeBalance u initialBalance bs =
     bs(u \<mapsto> \<lparr>balanceUserId = u, availableBalance = initialBalance, lockedBalance = 0\<rparr>)"

definition getBalance :: "UserId \<Rightarrow> Balances \<Rightarrow> UserBalance \<times> Balances" where
  "getBalance u bs = getOrCreateBalance u bs"

definition lockFunds :: "UserId \<Rightarrow> 64 word \<Rightarrow> Balances \<Rightarrow> ErrorCode \<times> Balances" where
  "lockFunds u amount bs =
     (case getOrCreateBalance u bs of (b, bs1) \<Rightarrow>
        if availableBalance b <s amount then (INSUFFICIENT_BALANCE, bs1)
        else (SUCCESS,
              bs1(u \<mapsto> b\<lparr>availableBalance := availableBalance b - amount,
                         lockedBalance := lockedBalance b + amount\<rparr>)))"

definition unlockFunds :: "UserId \<Rightarrow> 64 word \<Rightarrow> Balances \<Rightarrow> ErrorCode \<times> Balances" where
  "unlockFunds u amount bs =
     (case getOrCreateBalance u bs of (b, bs1) \<Rightarrow>
        if lockedBalance b <s amount then (SYSTEM_ERROR, bs1)
        else (SUCCESS,
              bs1(u \<mapsto> b\<lparr>lockedBalance := lockedBalance b - amount,
                         availableBalance := availableBalance b + amount\<rparr>)))"

text \<open>
  In \<open>transferFunds\<close> the two references are the same object when sender and recipient
  coincide, so the credit is applied to the entry the debit has just written.
\<close>

definition transferFunds ::
    "UserId \<Rightarrow> UserId \<Rightarrow> 64 word \<Rightarrow> Balances \<Rightarrow> ErrorCode \<times> Balances" where
  "transferFunds fromUserId toUserId amount bs =
     (case getOrCreateBalance fromUserId bs of (fb, bs1) \<Rightarrow>
      case getOrCreateBalance toUserId bs1 of (tb, bs2) \<Rightarrow>
        if availableBalance fb <s amount then (INSUFFICIENT_BALANCE, bs2)
        else
          let fb' = fb\<lparr>availableBalance := availableBalance fb - amount\<rparr>;
              bs3 = bs2(fromUserId \<mapsto> fb');
              tb' = (if toUserId = fromUserId then fb' else tb)
          in (SUCCESS, bs3(toUserId \<mapsto> tb'\<lparr>availableBalance := availableBalance tb' + amount\<rparr>)))"

definition hasSufficientBalance :: "UserId \<Rightarrow> 64 word \<Rightarrow> Balances \<Rightarrow> bool \<times> Balances" where
  "hasSufficientBalance u amount bs =
     (case getOrCreateBalance u bs of (b, bs1) \<Rightarrow> (amount \<le>s availableBalance b, bs1))"

definition calculateRequiredFunds :: "Order \<Rightarrow> 64 word" where
  "calculateRequiredFunds ord = (if side ord = BUY then price ord * quantity ord else 0)"

definition completeTrade ::
    "UserId \<Rightarrow> 64 word \<Rightarrow> 64 word \<Rightarrow> Balances \<Rightarrow> ErrorCode \<times> Balances" where
  "completeTrade u lockedAmount actualAmount bs =
     (case getOrCreateBalance u bs of (b, bs1) \<Rightarrow>
        if lockedBalance b <s lockedAmount then (SYSTEM_ERROR, bs1)
        else
          let b1 = b\<lparr>lockedBalance := lockedBalance b - lockedAmount\<rparr>;
              refund = lockedAmount - actualAmount
          in (SUCCESS,
              bs1(u \<mapsto> (if 0 <s refund
                         then b1\<lparr>availableBalance := availableBalance b1 + refund\<rparr>
                         else b1))))"

section \<open>Order objects and references\<close>

text \<open>
  Orders are shared through \<open>std::shared_ptr<Order>\<close>: the registry, the book's lookup
  table and the price level all point to one object, and the matching loop mutates it in
  place. An \<open>OrderRef\<close> is the address of such an object and \<open>heap\<close> maps addresses to
  objects; \<open>createOrder\<close> allocates the object of a new order at the address equal to its
  fresh order id.
\<close>

type_synonym OrderRef = "64 word"

type_synonym Heap = "OrderRef \<Rightarrow> Order"

text \<open>The \<open>Order()\<close> constructor.\<close>

definition defaultOrder :: Order where
  "defaultOrder =
     \<lparr>orderId = 0, userId = 0, symbol = [], side = BUY, orderType = LIMIT,
      timeInForce = GFD, price = 0, quantity = 0, filledQuantity = 0, status = PENDING\<rparr>"

section \<open>Price level and order book (orderbook.cpp)\<close>

text \<open>
  \<open>levelOrders\<close> is the list \<open>orders_\<close> in arrival order and \<open>levelOrderMap\<close> the
  table \<open>orderMap_\<close> from order id to the list node of that order, a node being named by
  the reference it holds. \<open>addOrder\<close> appends a node and points the table at it, so
  the node the table names is the last one of the list that holds the reference;
  \<open>eraseNode\<close> is \<open>orders_.erase\<close> on that node.
\<close>

record PriceLevel =
  levelPrice :: Price
  totalQuantity :: Quantity
  levelOrders :: "OrderRef list"
  levelOrderMap :: "OrderId \<rightharpoonup> OrderRef"

definition newPriceLevel :: "Price \<Rightarrow> PriceLevel" where
  "newPriceLevel p =
     \<lparr>levelPrice = p, totalQuantity = 0, levelOrders = [], levelOrderMap = Map.empty\<rparr>"

definition PriceLevel_addOrder :: "Heap \<Rightarrow> OrderRef \<Rightarrow> PriceLevel \<Rightarrow> PriceLevel" where
  "PriceLevel_addOrder h r lvl =
     lvl\<lparr>levelOrders := levelOrders lvl @ [r],
         levelOrderMap := (levelOrderMap lvl)(orderId (h r) \<mapsto> r),
         totalQuantity := totalQuantity lvl + (quantity (h r) - filledQuantity (h r))\<rparr>"

definition eraseNode :: "OrderRef \<Rightarrow> OrderRef list \<Rightarrow> OrderRef list" where
  "eraseNode r nodes = rev (remove1 r (rev nodes))"

definition PriceLevel_removeOrder :: "Heap \<Rightarrow> OrderId \<Rightarrow> PriceLevel \<Rightarrow> PriceLevel" where
  "PriceLevel_removeOrder h oid lvl =
     (case levelOrderMap lvl oid of
        None \<Rightarrow> lvl
      | Some r \<Rightarrow>
          lvl\<lparr>totalQuantity := totalQuantity lvl - (quantity (h r) - filledQuantity (h r)),
              levelOrders := eraseNode r (levelOrders lvl),
              levelOrderMap := (levelOrderMap lvl)(oid := None)\<rparr>)"

definition getFirstOrder :: "PriceLevel \<Rightarrow> OrderRef option" where
  "getFirstOrder lvl = (case levelOrders lvl of [] \<Rightarrow> None | r # _ \<Rightarrow> Some r)"

definition isEmpty :: "PriceLevel \<Rightarrow> bool" where
  "isEmpty lvl = (levelOrders lvl = [])"

text \<open>
  A ladder is a \<open>std::map\<close> from price to level, iterated in the order of its comparator
  (\<open>std::greater\<close> for bids, \<open>std::less\<close> for asks, both on the signed price). It is
  kept as an association list in iteration order; \<open>precedes p q\<close> says that key \<open>p\<close>
  comes before key \<open>q\<close>.
\<close>

type_synonym Ladder = "(Price \<times> PriceLevel) list"

definition bidBefore :: "Price \<Rightarrow> Price \<Rightarrow> bool" where
  "bidBefore p q = (q <s p)"

definition askBefore :: "Price \<Rightarrow> Price \<Rightarrow> bool" where
  "askBefore p q = (p <s q)"

fun insertLevel :: "(Price \<Rightarrow> Price \<Rightarrow> bool) \<Rightarrow> Price \<Rightarrow> PriceLevel \<Rightarrow> Ladder \<Rightarrow> Ladder" where
  "insertLevel precedes p lvl [] = [(p, lvl)]"
| "insertLevel precedes p lvl ((q, m) # rest) =
     (if precedes p q then (p, lvl) # (q, m) # rest
      else if p = q then (p, lvl) # rest
      else (q, m) # insertLevel precedes p lvl rest)"

definition updateLevel :: "Price \<Rightarrow> (PriceLevel \<Rightarrow> PriceLevel) \<Rightarrow> Ladder \<Rightarrow> Ladder" where
  "updateLevel p f levels = map (\<lambda>(q, m). if q = p then (q, f m) else (q, m)) levels"

definition eraseLevel :: "Price \<Rightarrow> Ladder \<Rightarrow> Ladder" where
  "eraseLevel p levels = filter (\<lambda>(q, m). q \<noteq> p) levels"

record OrderBook =
  bidLevels :: Ladder
  askLevels :: Ladder
  bookOrderMap :: "OrderId \<rightharpoonup> OrderRef"
  lastTradePrice :: Price
  totalVolume :: "64 word"

definition newOrderBook :: OrderBook where
  "newOrderBook =
     \<lparr>bidLevels = [], askLevels = [], bookOrderMap = Map.empty,
      lastTradePrice = 0, totalVolume = 0\<rparr>"

definition addToLadder ::
    "(Price \<Rightarrow> Price \<Rightarrow> bool) \<Rightarrow> Heap \<Rightarrow> OrderRef \<Rightarrow> Ladder \<Rightarrow> Ladder" where
  "addToLadder precedes h r levels =
     (case map_of levels (price (h r)) of
        None \<Rightarrow>
          insertLevel precedes (price (h r))
            (PriceLevel_addOrder h r (newPriceLevel (price (h r)))) levels
      | Some lvl \<Rightarrow> updateLevel (price (h r)) (PriceLevel_addOrder h r) levels)"

definition OrderBook_addOrder :: "Heap \<Rightarrow> OrderRef \<Rightarrow> OrderBook \<Rightarrow> OrderBook" where
  "OrderBook_addOrder h r book =
     (let book1 = book\<lparr>bookOrderMap := (bookOrderMap book)(orderId (h r) \<mapsto> r)\<rparr>
      in if side (h r) = BUY
         then book1\<lparr>bidLevels := addToLadder bidBefore h r (bidLevels book1)\<rparr>
         else book1\<lparr>askLevels := addToLadder askBefore h r (askLevels book1)\<rparr>)"

definition removeFromLadder :: "Heap \<Rightarrow> OrderId \<Rightarrow> Price \<Rightarrow> Ladder \<Rightarrow> Ladder" where
  "removeFromLadder h oid p levels =
     (case map_of levels p of
        None \<Rightarrow> levels
      | Some lvl \<Rightarrow>
          if isEmpty (PriceLevel_removeOrder h oid lvl) then eraseLevel p levels
          else updateLevel p (PriceLevel_removeOrder h oid) levels)"

definition OrderBook_removeOrder ::
    "Heap \<Rightarrow> OrderId \<Rightarrow> Side \<Rightarrow> OrderBook \<Rightarrow> bool \<times> OrderBook" where
  "OrderBook_removeOrder h oid sd book =
     (case bookOrderMap book oid of
        None \<Rightarrow> (False, book)
      | Some r \<Rightarrow>
          let book1 =
                (if sd = BUY
                 then book\<lparr>bidLevels := removeFromLadder h oid (price (h r)) (bidLevels book)\<rparr>
                 else book\<lparr>askLevels := removeFromLadder h oid (price (h r)) (askLevels book)\<rparr>)
          in (True, book1\<lparr>bookOrderMap := (bookOrderMap book1)(oid := None)\<rparr>))"

definition getBestBid :: "OrderBook \<Rightarrow> Price" where
  "getBestBid book = (case bidLevels book of [] \<Rightarrow> 0 | (p, lvl) # _ \<Rightarrow> p)"

definition getBestAsk :: "OrderBook \<Rightarrow> Price" where
  "getBestAsk book = (case askLevels book of [] \<Rightarrow> 0 | (p, lvl) # _ \<Rightarrow> p)"

definition ladderDepth :: "nat \<Rightarrow> Ladder \<Rightarrow> (Price \<times> Quantity) list" where
  "ladderDepth n levels = map (\<lambda>(p, lvl). (p, totalQuantity lvl)) (take n levels)"

definition getBidDepth :: "nat \<Rightarrow> OrderBook \<Rightarrow> (Price \<times> Quantity) list" where
  "getBidDepth n book = ladderDepth n (bidLevels book)"

definition getAskDepth :: "nat \<Rightarrow> OrderBook \<Rightarrow> (Price \<times> Quantity) list" where
  "getAskDepth n book = ladderDepth n (askLevels book)"

definition updateLastTrade :: "Price \<Rightarrow> Quantity \<Rightarrow> OrderBook \<Rightarrow> OrderBook" where
  "updateLastTrade p q book = book\<lparr>lastTradePrice := p, totalVolume := totalVolume book + q\<rparr>"

definition getBestBidOrder :: "OrderBook \<Rightarrow> OrderRef option" where
  "getBestBidOrder book = (case bidLevels book of [] \<Rightarrow> None | (p, lvl) # _ \<Rightarrow> getFirstOrder lvl)"

definition getBestAskOrder :: "OrderBook \<Rightarrow> OrderRef option" where
  "getBestAskOrder book = (case askLevels book of [] \<Rightarrow> None | (p, lvl) # _ \<Rightarrow> getFirstOrder lvl)"

section \<open>Engine state\<close>

text \<open>
  The services share one ledger and one set of order objects, so the state of the
  engine is one record: the ledger's \<open>balances_\<close>, the order objects, the registry's
  \<open>orders_\<close>, \<open>userOrders_\<close> and \<open>nextOrderId_\<close>, the matching engine's
  \<open>orderBooks_\<close> and \<open>nextTradeId_\<close>, and the sequence of calls made to the trade
  and order-update callbacks. \<open>getOrderBook\<close> creates an empty book the first time a
  symbol is asked for and never removes one, so \<open>orderBooks\<close> is a total function whose
  value at a symbol not yet used is the empty book; a \<open>shared_ptr<OrderBook>\<close> is the
  symbol it is stored under.
\<close>

datatype Event = TradeEvent Trade | OrderUpdate Order

record Engine =
  balances :: Balances
  heap :: Heap
  orders :: "OrderId \<rightharpoonup> OrderRef"
  userOrders :: "UserId \<Rightarrow> OrderId list"
  nextOrderId :: OrderId
  orderBooks :: "string \<Rightarrow> OrderBook"
  nextTradeId :: "64 word"
  events :: "Event list"

definition newEngine :: Engine where
  "newEngine =
     \<lparr>balances = Map.empty, heap = (\<lambda>r. defaultOrder), orders = Map.empty,
      userOrders = (\<lambda>u. []), nextOrderId = 1, orderBooks = (\<lambda>smb. newOrderBook),
      nextTradeId = 1, events = []\<rparr>"

definition getOrderBook :: "string \<Rightarrow> Engine \<Rightarrow> OrderBook" where
  "getOrderBook smb s = orderBooks s smb"

definition setStatus :: "OrderRef \<Rightarrow> OrderStatus \<Rightarrow> Engine \<Rightarrow> Engine" where
  "setStatus r st s = s\<lparr>heap := (heap s)(r := (heap s r)\<lparr>status := st\<rparr>)\<rparr>"

definition addFilledQuantity :: "OrderRef \<Rightarrow> Quantity \<Rightarrow> Engine \<Rightarrow> Engine" where
  "addFilledQuantity r q s =
     s\<lparr>heap := (heap s)(r := (heap s r)\<lparr>filledQuantity := filledQuantity (heap s r) + q\<rparr>)\<rparr>"

definition notifyTrade :: "Trade \<Rightarrow> Engine \<Rightarrow> Engine" where
  "notifyTrade t s = s\<lparr>events := events s @ [TradeEvent t]\<rparr>"

definition notifyOrderUpdate :: "OrderRef \<Rightarrow> Engine \<Rightarrow> Engine" where
  "notifyOrderUpdate r s = s\<lparr>events := events s @ [OrderUpdate (heap s r)]\<rparr>"

section \<open>Order registry (order_service.cpp)\<close>

definition validateOrder :: "Order \<Rightarrow> ErrorCode" where
  "validateOrder ord =
     (if symbol ord = [] then INVALID_SYMBOL
      else if quantity ord = 0 then INVALID_QUANTITY
      else if orderType ord = LIMIT \<and> price ord = 0 then INVALID_PRICE
      else SUCCESS)"

definition createOrder ::
    "UserId \<Rightarrow> string \<Rightarrow> Side \<Rightarrow> OrderType \<Rightarrow> TimeInForce \<Rightarrow> Price \<Rightarrow> Quantity \<Rightarrow> Engine
     \<Rightarrow> (OrderRef \<times> ErrorCode) \<times> Engine" where
  "createOrder uid smb sd ty tif p q s =
     (let r = nextOrderId s;
          ord = \<lparr>orderId = nextOrderId s, userId = uid, symbol = smb, side = sd,
                 orderType = ty, timeInForce = tif, price = p, quantity = q,
                 filledQuantity = 0, status = PENDING\<rparr>;
          s1 = s\<lparr>nextOrderId := nextOrderId s + 1, heap := (heap s)(r := ord)\<rparr>;
          validationResult = validateOrder ord
      in if validationResult \<noteq> SUCCESS then ((r, validationResult), setStatus r REJECTED s1)
         else
           case (if sd = BUY
                 then lockFunds uid (calculateRequiredFunds ord) (balances s1)
                 else (SUCCESS, balances s1)) of
             (lockResult, bs) \<Rightarrow>
               if lockResult \<noteq> SUCCESS
               then ((r, lockResult), setStatus r REJECTED (s1\<lparr>balances := bs\<rparr>))
               else ((r, SUCCESS),
                     s1\<lparr>balances := bs,
                        orders := (orders s1)(orderId ord \<mapsto> r),
                        userOrders := (userOrders s1)(uid := userOrders s1 uid @ [orderId ord])\<rparr>))"

definition OrderService_cancelOrder :: "OrderId \<Rightarrow> Engine \<Rightarrow> ErrorCode \<times> Engine" where
  "OrderService_cancelOrder oid s =
     (case orders s oid of
        None \<Rightarrow> (ORDER_NOT_FOUND, s)
      | Some r \<Rightarrow>
          if status (heap s r) \<noteq> PENDING \<and> status (heap s r) \<noteq> PARTIALLY_FILLED
          then (SYSTEM_ERROR, s)
          else
            let ord = heap s r;
                s1 = (if side ord = BUY
                      then s\<lparr>balances :=
                                snd (unlockFunds (userId ord)
                                       (price ord * (quantity ord - filledQuantity ord))
                                       (balances s))\<rparr>
                      else s)
            in (SUCCESS, setStatus r CANCELLED s1))"

definition getOrder :: "OrderId \<Rightarrow> Engine \<Rightarrow> OrderRef option" where
  "getOrder oid s = orders s oid"

definition updateOrderStatus :: "OrderId \<Rightarrow> OrderStatus \<Rightarrow> Engine \<Rightarrow> Engine" where
  "updateOrderStatus oid st s =
     (case orders s oid of None \<Rightarrow> s | Some r \<Rightarrow> setStatus r st s)"

definition updateFilledQuantity :: "OrderId \<Rightarrow> Quantity \<Rightarrow> Engine \<Rightarrow> Engine" where
  "updateFilledQuantity oid filledQty s =
     (case orders s oid of
        None \<Rightarrow> s
      | Some r \<Rightarrow>
          let s1 = addFilledQuantity r filledQty s
          in if quantity (heap s1 r) \<le> filledQuantity (heap s1 r) then setStatus r FILLED s1
             else if 0 < filledQuantity (heap s1 r) then setStatus r PARTIALLY_FILLED s1
             else s1)"

section \<open>Matching engine (matching_engine.cpp)\<close>

text \<open>
  \<open>executeTrade\<close> calls \<open>completeTrade\<close> and \<open>transferFunds\<close> and drops what they
  return: only the ledger they leave behind is kept.
\<close>

definition executeTrade ::
    "OrderRef \<Rightarrow> OrderRef \<Rightarrow> Price \<Rightarrow> Quantity \<Rightarrow> Engine \<Rightarrow> Trade \<times> Engine" where
  "executeTrade buyRef sellRef tPrice tQuantity s =
     (let buyOrder = heap s buyRef;
          sellOrder = heap s sellRef;
          trade = \<lparr>tradeId = nextTradeId s,
                   buyOrderId = orderId buyOrder, sellOrderId = orderId sellOrder,
                   buyUserId = userId buyOrder, sellUserId = userId sellOrder,
                   tradeSymbol = symbol buyOrder,
                   tradePrice = tPrice, tradeQuantity = tQuantity\<rparr>;
          tradeValue = tPrice * tQuantity;
          buyerLockedAmount = price buyOrder * tQuantity;
          bs1 = snd (completeTrade (userId buyOrder) buyerLockedAmount tradeValue (balances s));
          bs2 = snd (transferFunds (userId buyOrder) (userId sellOrder) tradeValue bs1);
          book = getOrderBook (tradeSymbol trade) s
      in (trade,
          s\<lparr>nextTradeId := nextTradeId s + 1,
            balances := bs2,
            orderBooks := (orderBooks s)(tradeSymbol trade := updateLastTrade tPrice tQuantity book)\<rparr>))"

text \<open>
  One fill: the body of the matching loop once a counter order \<open>c\<close> has been accepted.
  \<open>matchLimitOrder\<close> and \<open>matchMarketOrder\<close> have the same text here. \<open>bk\<close> is the
  book the loop works on. The snapshot taken for \<open>publishMarketData\<close> reads the book
  only, and \<open>MatchingEngine::publishMarketData\<close> has an empty body.
\<close>

definition fill :: "OrderRef \<Rightarrow> OrderRef \<Rightarrow> string \<Rightarrow> Engine \<Rightarrow> Trade \<times> Engine" where
  "fill r c bk s =
     (let remainingQty = quantity (heap s r) - filledQuantity (heap s r);
          counterRemainingQty = quantity (heap s c) - filledQuantity (heap s c);
          tradeQty = min remainingQty counterRemainingQty
      in case executeTrade (if side (heap s r) = BUY then r else c)
                           (if side (heap s r) = SELL then r else c)
                           (price (heap s c)) tradeQty s of
           (trade, s1) \<Rightarrow>
             let s2 = addFilledQuantity r tradeQty s1;
                 s3 = addFilledQuantity c tradeQty s2;
                 s4 = (if quantity (heap s3 c) \<le> filledQuantity (heap s3 c)
                       then
                         let s' = setStatus c FILLED s3
                         in s'\<lparr>orderBooks := (orderBooks s')
                                 (bk := snd (OrderBook_removeOrder (heap s')
                                               (orderId (heap s' c)) (side (heap s' c))
                                               (orderBooks s' bk)))\<rparr>
                       else setStatus c PARTIALLY_FILLED s3)
             in (trade, notifyTrade trade (notifyOrderUpdate c s4)))"

text \<open>
  The loops take fuel: the source loops until the order is filled or no counter order
  is left, and a run that has not left the loop when the fuel is used up is \<open>None\<close>.
\<close>

fun matchLimitLoop ::
    "nat \<Rightarrow> OrderRef \<Rightarrow> string \<Rightarrow> Trade list \<Rightarrow> Engine \<Rightarrow> (Trade list \<times> Engine) option" where
  "matchLimitLoop 0 r bk trades s = None"
| "matchLimitLoop (Suc n) r bk trades s =
     (if \<not> filledQuantity (heap s r) < quantity (heap s r) then Some (trades, s)
      else if side (heap s r) = BUY then
        (case getBestAskOrder (orderBooks s bk) of
           None \<Rightarrow> Some (trades, s)
         | Some c \<Rightarrow>
             if price (heap s r) <s price (heap s c) then Some (trades, s)
             else (case fill r c bk s of
                     (trade, s') \<Rightarrow> matchLimitLoop n r bk (trades @ [trade]) s'))
      else
        (case getBestBidOrder (orderBooks s bk) of
           None \<Rightarrow> Some (trades, s)
         | Some c \<Rightarrow>
             if price (heap s c) <s price (heap s r) then Some (trades, s)
             else (case fill r c bk s of
                     (trade, s') \<Rightarrow> matchLimitLoop n r bk (trades @ [trade]) s')))"

definition matchLimitOrder ::
    "nat \<Rightarrow> OrderRef \<Rightarrow> string \<Rightarrow> Engine \<Rightarrow> (Trade list \<times> Engine) option" where
  "matchLimitOrder fuel r bk s =
     (case matchLimitLoop fuel r bk [] s of
        None \<Rightarrow> None
      | Some (trades, s1) \<Rightarrow>
          Some (trades,
                if quantity (heap s1 r) \<le> filledQuantity (heap s1 r) then setStatus r FILLED s1
                else if 0 < filledQuantity (heap s1 r) then setStatus r PARTIALLY_FILLED s1
                else s1))"

fun matchMarketLoop ::
    "nat \<Rightarrow> OrderRef \<Rightarrow> string \<Rightarrow> Trade list \<Rightarrow> Engine \<Rightarrow> (Trade list \<times> Engine) option" where
  "matchMarketLoop 0 r bk trades s = None"
| "matchMarketLoop (Suc n) r bk trades s =
     (if \<not> filledQuantity (heap s r) < quantity (heap s r) then Some (trades, s)
      else
        case (if side (heap s r) = BUY then getBestAskOrder (orderBooks s bk)
              else getBestBidOrder (orderBooks s bk)) of
          None \<Rightarrow> Some (trades, s)
        | Some c \<Rightarrow>
            (case fill r c bk s of
               (trade, s') \<Rightarrow> matchMarketLoop n r bk (trades @ [trade]) s'))"

definition matchMarketOrder ::
    "nat \<Rightarrow> OrderRef \<Rightarrow> string \<Rightarrow> Engine \<Rightarrow> (Trade list \<times> Engine) option" where
  "matchMarketOrder fuel r bk s =
     (case matchMarketLoop fuel r bk [] s of
        None \<Rightarrow> None
      | Some (trades, s1) \<Rightarrow>
          Some (trades,
                if quantity (heap s1 r) \<le> filledQuantity (heap s1 r) then setStatus r FILLED s1
                else if 0 < filledQuantity (heap s1 r) then setStatus r PARTIALLY_FILLED s1
                else setStatus r CANCELLED s1))"

definition handleIOC :: "OrderRef \<Rightarrow> Trade list \<Rightarrow> Engine \<Rightarrow> bool \<times> Engine" where
  "handleIOC r trades s =
     (let ord = heap s r
      in if filledQuantity ord < quantity ord then
           let s1 = (if side ord = BUY
                     then s\<lparr>balances :=
                               snd (unlockFunds (userId ord)
                                      (price ord * (quantity ord - filledQuantity ord))
                                      (balances s))\<rparr>
                     else s)
           in (True, if filledQuantity ord = 0 then setStatus r CANCELLED s1
                     else setStatus r PARTIALLY_FILLED s1)
         else (True, s))"

fun canFillLoop ::
    "(Price \<Rightarrow> bool) \<Rightarrow> Quantity \<Rightarrow> Quantity \<Rightarrow> (Price \<times> Quantity) list \<Rightarrow> bool" where
  "canFillLoop stop wanted availableQuantity [] = False"
| "canFillLoop stop wanted availableQuantity ((p, qty) # rest) =
     (if stop p then False
      else if wanted \<le> availableQuantity + qty then True
      else canFillLoop stop wanted (availableQuantity + qty) rest)"

definition canFillCompletely :: "OrderRef \<Rightarrow> string \<Rightarrow> Engine \<Rightarrow> bool" where
  "canFillCompletely r bk s =
     (let ord = heap s r
      in if side ord = BUY
         then canFillLoop (\<lambda>p. orderType ord = LIMIT \<and> price ord <s p) (quantity ord) 0
                (getAskDepth 100 (orderBooks s bk))
         else canFillLoop (\<lambda>p. orderType ord = LIMIT \<and> p <s price ord) (quantity ord) 0
                (getBidDepth 100 (orderBooks s bk)))"

definition handleFOK :: "OrderRef \<Rightarrow> string \<Rightarrow> Engine \<Rightarrow> bool \<times> Engine" where
  "handleFOK r bk s =
     (let ord = heap s r
      in if \<not> canFillCompletely r bk s then
           (False,
            if side ord = BUY
            then s\<lparr>balances :=
                      snd (unlockFunds (userId ord) (price ord * quantity ord) (balances s))\<rparr>
            else s)
         else (True, s))"

text \<open>The last step of \<open>processOrder\<close>: the unfilled part of a GFD limit order rests.\<close>

definition restOrder :: "OrderRef \<Rightarrow> string \<Rightarrow> Engine \<Rightarrow> Engine" where
  "restOrder r bk s =
     (let ord = heap s r
      in if timeInForce ord = GFD \<and> orderType ord = LIMIT
            \<and> filledQuantity ord < quantity ord \<and> status ord \<noteq> CANCELLED
         then notifyOrderUpdate r
                (s\<lparr>orderBooks := (orderBooks s)(bk := OrderBook_addOrder (heap s) r (orderBooks s bk))\<rparr>)
         else s)"

definition processOrder :: "nat \<Rightarrow> OrderRef \<Rightarrow> Engine \<Rightarrow> (Trade list \<times> Engine) option" where
  "processOrder fuel r s =
     (let bk = symbol (heap s r)
      in case (if orderType (heap s r) = LIMIT then matchLimitOrder fuel r bk s
               else matchMarketOrder fuel r bk s) of
           None \<Rightarrow> None
         | Some (trades, s1) \<Rightarrow>
             if timeInForce (heap s1 r) = IOC
             then Some (trades, restOrder r bk (snd (handleIOC r trades s1)))
             else if timeInForce (heap s1 r) = FOK then
               (case handleFOK r bk s1 of
                  (ok, s2) \<Rightarrow>
                    if \<not> ok then Some ([], notifyOrderUpdate r (setStatus r CANCELLED s2))
                    else Some (trades, restOrder r bk s2))
             else Some (trades, restOrder r bk s1))"

section \<open>Trading engine (trading_engine.cpp)\<close>

text \<open>
  \<open>submitOrder\<close> and \<open>cancelOrder\<close> as the intake dispatcher calls them. Error
  reports, snapshots and publication to the broker leave the engine state alone;
  \<open>publishOrderUpdate\<close> in \<open>cancelOrder\<close> sends what the order-update callback sends,
  so it is recorded as such.
\<close>

definition submitOrder ::
    "nat \<Rightarrow> UserId \<Rightarrow> string \<Rightarrow> Side \<Rightarrow> OrderType \<Rightarrow> TimeInForce \<Rightarrow> Price \<Rightarrow> Quantity \<Rightarrow> Engine
     \<Rightarrow> ((OrderRef \<times> ErrorCode) \<times> Engine) option" where
  "submitOrder fuel uid smb sd ty tif p q s =
     (case createOrder uid smb sd ty tif p q s of
        ((r, errorCode), s1) \<Rightarrow>
          if errorCode \<noteq> SUCCESS then Some ((r, errorCode), s1)
          else (case processOrder fuel r s1 of
                  None \<Rightarrow> None
                | Some (trades, s2) \<Rightarrow> Some ((r, SUCCESS), s2)))"

definition TradingEngine_cancelOrder :: "OrderId \<Rightarrow> Engine \<Rightarrow> ErrorCode \<times> Engine" where
  "TradingEngine_cancelOrder oid s =
     (case getOrder oid s of
        None \<Rightarrow> (ORDER_NOT_FOUND, s)
      | Some r \<Rightarrow>
          (case OrderService_cancelOrder oid s of
             (result, s1) \<Rightarrow>
               if result = SUCCESS then
                 let bk = symbol (heap s1 r);
                     s2 = s1\<lparr>orderBooks := (orderBooks s1)
                              (bk := snd (OrderBook_removeOrder (heap s1) oid (side (heap s1 r))
                                            (orderBooks s1 bk)))\<rparr>
                 in (result, notifyOrderUpdate r s2)
               else (result, s1)))"

definition getOrderStatus :: "OrderId \<Rightarrow> Engine \<Rightarrow> Order option" where
  "getOrderStatus oid s = map_option (heap s) (getOrder oid s)"

definition initializeUserBalance :: "UserId \<Rightarrow> 64 word \<Rightarrow> Engine \<Rightarrow> Engine" where
  "initializeUserBalance u initialBalance s =
     s\<lparr>balances := initializeBalance u initialBalance (balances s)\<rparr>"

definition getUserBalance :: "UserId \<Rightarrow> Engine \<Rightarrow> UserBalance \<times> Engine" where
  "getUserBalance u s =
     (case getBalance u (balances s) of (b, bs) \<Rightarrow> (b, s\<lparr>balances := bs\<rparr>))"

section \<open>Observations and scenarios\<close>

text \<open>The trades handed to the trade callback, in order.\<close>

definition emittedTrades :: "Engine \<Rightarrow> Trade list" where
  "emittedTrades s =
     concat (map (\<lambda>e. case e of TradeEvent t \<Rightarrow> [t] | OrderUpdate ord \<Rightarrow> []) (events s))"

text \<open>The references held by the levels of a ladder, best level first.\<close>

definition ladderRefs :: "Ladder \<Rightarrow> OrderRef list" where
  "ladderRefs levels = concat (map (\<lambda>(p, lvl). levelOrders lvl) levels)"

definition bookRefs :: "OrderBook \<Rightarrow> OrderRef list" where
  "bookRefs book = ladderRefs (bidLevels book) @ ladderRefs (askLevels book)"

text \<open>The unfilled quantity of the orders that are in a level now.\<close>

definition levelUnfilled :: "Heap \<Rightarrow> PriceLevel \<Rightarrow> Quantity" where
  "levelUnfilled h lvl =
     sum_list (map (\<lambda>r. quantity (h r) - filledQuantity (h r)) (levelOrders lvl))"

text \<open>
  Two order objects that differ at most in filled quantity and status, the two fields
  the engine writes after creation.
\<close>

definition sameOrderData :: "Heap \<Rightarrow> Heap \<Rightarrow> bool" where
  "sameOrderData h h' =
     (\<forall>x. (h' x)\<lparr>filledQuantity := 0, status := PENDING\<rparr>
           = (h x)\<lparr>filledQuantity := 0, status := PENDING\<rparr>)"

text \<open>
  The scenarios of the specification: one symbol \<open>''X''\<close>, users 1 and 2 seeded with
  1,000,000 each, and a resting \<open>SELL LIMIT GFD 10000\<close> of user 2, which gets order
  id 1. The incoming order of user 1 gets order id 2.
\<close>

definition seededEngine :: Engine where
  "seededEngine = initializeUserBalance 2 1000000 (initializeUserBalance 1 1000000 newEngine)"

definition restingSell :: "Quantity \<Rightarrow> Engine option" where
  "restingSell q = map_option snd (submitOrder 10 2 ''X'' SELL LIMIT GFD 10000 q seededEngine)"

definition submitted ::
    "Side \<Rightarrow> OrderType \<Rightarrow> TimeInForce \<Rightarrow> Price \<Rightarrow> Quantity \<Rightarrow> Engine \<Rightarrow> Engine option" where
  "submitted sd ty tif p q s = map_option snd (submitOrder 10 1 ''X'' sd ty tif p q s)"

definition askSide :: "Engine \<Rightarrow> (Price \<times> Quantity \<times> Quantity) list" where
  "askSide s =
     map (\<lambda>(p, lvl). (p, totalQuantity lvl, levelUnfilled (heap s) lvl))
       (askLevels (orderBooks s ''X''))"

text \<open>Scenario 1, the simple cross.\<close>

definition simpleCross :: "Engine option" where
  "simpleCross = Option.bind (restingSell 5) (submitted BUY LIMIT GFD 10500 5)"

definition simpleCrossOutcome ::
    "(Trade list \<times> OrderStatus \<times> OrderStatus \<times> UserBalance option \<times> UserBalance option) option" where
  "simpleCrossOutcome =
     map_option (\<lambda>s. (emittedTrades s, status (heap s 1), status (heap s 2),
                       balances s 1, balances s 2))
       simpleCross"

text \<open>
  Scenario 4, the fill-or-kill order that cannot be filled: what \<open>processOrder\<close>
  returns and leaves behind for \<open>BUY LIMIT FOK 10000 qty=10\<close> against 3 units.
\<close>

definition fokShort :: "(Trade list \<times> Engine) option" where
  "fokShort =
     Option.bind (restingSell 3)
       (\<lambda>s. processOrder 10 (fst (fst (createOrder 1 ''X'' BUY LIMIT FOK 10000 10 s)))
                (snd (createOrder 1 ''X'' BUY LIMIT FOK 10000 10 s)))"

definition fokShortBefore :: "((Price \<times> Quantity) list \<times> Order) option" where
  "fokShortBefore =
     map_option (\<lambda>s. (getAskDepth 100 (orderBooks s ''X''), heap s 1)) (restingSell 3)"

definition fokShortOutcome ::
    "(Trade list \<times> Trade list \<times> (Price \<times> Quantity) list \<times> Order \<times> OrderStatus
      \<times> UserBalance option) option" where
  "fokShortOutcome =
     map_option (\<lambda>(trades, s). (trades, emittedTrades s, getAskDepth 100 (orderBooks s ''X''),
                                 heap s 1, status (heap s 2), balances s 1))
       fokShort"

text \<open>A resting sell order of 10 units is hit by a buy order of 4 units.\<close>

definition partialFill :: "Engine option" where
  "partialFill = Option.bind (restingSell 10) (submitted BUY LIMIT GFD 10000 4)"

definition partialFillOutcome :: "(Price \<times> Quantity \<times> Quantity) list option" where
  "partialFillOutcome = map_option askSide partialFill"

text \<open>
  A fill-or-kill order for exactly the 10 units that rest: the status of the order when
  \<open>matchLimitOrder\<close> returns, and its status, filled quantity and quantity when
  \<open>processOrder\<close> returns.
\<close>

definition fokExactCreated :: "Engine option" where
  "fokExactCreated =
     map_option (\<lambda>s. snd (createOrder 1 ''X'' BUY LIMIT FOK 10000 10 s)) (restingSell 10)"

definition fokExactMatched :: "OrderStatus option" where
  "fokExactMatched =
     Option.bind fokExactCreated
       (\<lambda>s. map_option (\<lambda>(trades, s1). status (heap s1 2)) (matchLimitOrder 10 2 ''X'' s))"

definition fokExactProcessed :: "(OrderStatus \<times> Quantity \<times> Quantity) option" where
  "fokExactProcessed =
     Option.bind fokExactCreated
       (\<lambda>s. map_option
               (\<lambda>(trades, s1). (status (heap s1 2), filledQuantity (heap s1 2), quantity (heap s1 2)))
               (processOrder 10 2 s))"

text \<open>Scenario 3, the immediate-or-cancel order against 3 units, and a cancel after it.\<close>

definition iocShort :: "Engine option" where
  "iocShort = Option.bind (restingSell 3) (submitted BUY LIMIT IOC 10000 10)"

definition iocShortOutcome ::
    "(Trade list \<times> OrderStatus \<times> OrderRef list \<times> UserBalance option) option" where
  "iocShortOutcome =
     map_option (\<lambda>s. (emittedTrades s, status (heap s 2), bookRefs (orderBooks s ''X''),
                       balances s 1))
       iocShort"

definition iocShortThenCancel :: "(OrderStatus \<times> ErrorCode \<times> OrderStatus) option" where
  "iocShortThenCancel =
     map_option (\<lambda>s. (status (heap s 2), fst (TradingEngine_cancelOrder 2 s),
                       status (heap (snd (TradingEngine_cancelOrder 2 s)) 2)))
       iocShort"

text \<open>
  Scenario 3 with a second order of user 1 in the book: after the sell order of 3
  units (order 1), user 1 sends \<open>BUY LIMIT GFD 9000 qty=10\<close> (order 2), which rests and
  reserves 90,000, and then the immediate-or-cancel order \<open>BUY LIMIT IOC 10000 qty=10\<close>
  (order 3). \<open>iocReleasedTwice\<close> observes the state after order 3 and after a cancel
  of order 3; \<open>cancelAfterRelease\<close> goes on to cancel the resting order 2 and then
  cancels it once more.
\<close>

definition iocBesideRestingBuy :: "Engine option" where
  "iocBesideRestingBuy =
     Option.bind (Option.bind (restingSell 3) (submitted BUY LIMIT GFD 9000 10))
       (submitted BUY LIMIT IOC 10000 10)"

definition iocReleasedTwice ::
    "(Trade list \<times> OrderStatus \<times> UserBalance option \<times> ErrorCode \<times> OrderStatus
      \<times> UserBalance option \<times> Order \<times> OrderRef list) option" where
  "iocReleasedTwice =
     map_option
       (\<lambda>s. case TradingEngine_cancelOrder 3 s of
               (result, s') \<Rightarrow>
                 (emittedTrades s, status (heap s 3), balances s 1,
                  result, status (heap s' 3), balances s' 1,
                  heap s' 2, bookRefs (orderBooks s' ''X'')))
       iocBesideRestingBuy"

definition cancelAfterRelease ::
    "(Order \<times> UserBalance option \<times> ErrorCode \<times> OrderStatus \<times> UserBalance option
      \<times> OrderRef list \<times> ErrorCode) option" where
  "cancelAfterRelease =
     map_option
       (\<lambda>s. case TradingEngine_cancelOrder 3 s of
               (_, s1) \<Rightarrow>
                 (case TradingEngine_cancelOrder 2 s1 of
                    (result, s2) \<Rightarrow>
                      (heap s1 2, balances s1 1, result, status (heap s2 2), balances s2 1,
                       bookRefs (orderBooks s2 ''X''), fst (TradingEngine_cancelOrder 2 s2))))
       iocBesideRestingBuy"

text \<open>
  What fills leave of a state: order data and the registry as they were, and in every
  book no reference that was not there before.
\<close>

definition afterFills :: "Engine \<Rightarrow> Engine \<Rightarrow> bool" where
  "afterFills s s' =
     (sameOrderData (heap s) (heap s') \<and> orders s' = orders s
      \<and> (\<forall>b. set (ladderRefs (askLevels (orderBooks s' b)))
                 \<subseteq> set (ladderRefs (askLevels (orderBooks s b)))
             \<and> set (ladderRefs (bidLevels (orderBooks s' b)))
                 \<subseteq> set (ladderRefs (bidLevels (orderBooks s b)))))"

text \<open>
  A trade of the incoming order \<open>r\<close> is priced by its maker: some order \<open>c\<close> resting
  on the opposite side of the book \<open>bk\<close> in state \<open>s\<close> is the other party of the trade
  and its price is the trade price.
\<close>

definition makerPriced :: "Engine \<Rightarrow> OrderRef \<Rightarrow> string \<Rightarrow> Trade \<Rightarrow> bool" where
  "makerPriced s r bk t =
     (if side (heap s r) = BUY
      then (\<exists>c \<in> set (ladderRefs (askLevels (orderBooks s bk))).
              tradePrice t = price (heap s c) \<and> sellOrderId t = orderId (heap s c)
              \<and> buyOrderId t = orderId (heap s r))
      else (\<exists>c \<in> set (ladderRefs (bidLevels (orderBooks s bk))).
              tradePrice t = price (heap s c) \<and> buyOrderId t = orderId (heap s c)
              \<and> sellOrderId t = orderId (heap s r)))"

text \<open>The trade price is no worse than the limit price of the order.\<close>

definition withinLimit :: "Order \<Rightarrow> Trade \<Rightarrow> bool" where
  "withinLimit ord t =
     (if side ord = BUY then tradePrice t \<le>s price ord else price ord \<le>s tradePrice t)"

text \<open>
  A well-formed book: the levels of a ladder have distinct prices and hold distinct
  orders, no level is empty, and every order of a level has the price of the level and
  the side of the ladder and is found under its order id in the lookup tables of the
  level and of the book.
\<close>

definition levelWellFormed :: "Heap \<Rightarrow> OrderBook \<Rightarrow> Side \<Rightarrow> Price \<Rightarrow> PriceLevel \<Rightarrow> bool" where
  "levelWellFormed h book sd p lvl =
     (levelOrders lvl \<noteq> []
      \<and> (\<forall>c \<in> set (levelOrders lvl).
            price (h c) = p \<and> side (h c) = sd
            \<and> bookOrderMap book (orderId (h c)) = Some c
            \<and> levelOrderMap lvl (orderId (h c)) = Some c))"

definition ladderWellFormed :: "Heap \<Rightarrow> OrderBook \<Rightarrow> Side \<Rightarrow> Ladder \<Rightarrow> bool" where
  "ladderWellFormed h book sd levels =
     (distinct (map fst levels) \<and> distinct (ladderRefs levels)
      \<and> (\<forall>(p, lvl) \<in> set levels. levelWellFormed h book sd p lvl))"

definition bookWellFormed :: "Heap \<Rightarrow> OrderBook \<Rightarrow> bool" where
  "bookWellFormed h book =
     (ladderWellFormed h book BUY (bidLevels book)
      \<and> ladderWellFormed h book SELL (askLevels book))"

text \<open>
  States in which an order of user 1 has been created and is about to be processed:
  the crossing buy order of scenario 1 and the immediate-or-cancel order of scenario 3.
  \<open>restingBuy\<close> is scenario 6 before the cancel, and in \<open>unfundedReady\<close> user 3, who
  has no funds, has sent a market buy order for the 5 resting units.
\<close>

definition crossReady :: Engine where
  "crossReady =
     (case restingSell 5 of
        None \<Rightarrow> newEngine
      | Some s \<Rightarrow> snd (createOrder 1 ''X'' BUY LIMIT GFD 10500 5 s))"

definition iocReady :: Engine where
  "iocReady =
     (case restingSell 3 of
        None \<Rightarrow> newEngine
      | Some s \<Rightarrow> snd (createOrder 1 ''X'' BUY LIMIT IOC 10000 10 s))"

definition restingBuy :: Engine where
  "restingBuy =
     (case submitOrder 10 1 ''X'' BUY LIMIT GFD 10000 5 seededEngine of
        None \<Rightarrow> newEngine
      | Some (res, s) \<Rightarrow> s)"

definition unfundedReady :: Engine where
  "unfundedReady =
     (case restingSell 5 of
        None \<Rightarrow> newEngine
      | Some s \<Rightarrow> snd (createOrder 3 ''X'' BUY MARKET IOC 0 5 s))"

section \<open>Unfolding rules\<close>

lemmas ledger_defs =
  newBalance_def getOrCreateBalance_def initializeBalance_def getBalance_def
  lockFunds_def unlockFunds_def transferFunds_def hasSufficientBalance_def
  calculateRequiredFunds_def completeTrade_def

lemmas book_defs =
  newPriceLevel_def PriceLevel_addOrder_def eraseNode_def PriceLevel_removeOrder_def
  getFirstOrder_def isEmpty_def bidBefore_def askBefore_def updateLevel_def eraseLevel_def
  newOrderBook_def addToLadder_def OrderBook_addOrder_def removeFromLadder_def
  OrderBook_removeOrder_def getBestBid_def getBestAsk_def ladderDepth_def getBidDepth_def
  getAskDepth_def updateLastTrade_def getBestBidOrder_def getBestAskOrder_def

lemmas heap_defs =
  setStatus_def addFilledQuantity_def notifyTrade_def notifyOrderUpdate_def

section \<open>The balance ledger\<close>

lemma sint_sub_no_overflow:
  fixes a b :: "64 word"
  assumes "- (2 ^ 63) \<le> sint a - sint b" and "sint a - sint b < 2 ^ 63"
  shows "sint (a - b) = sint a - sint b"
  using assms by (simp add: sint_word_ariths signed_take_bit_int_eq_self)

text \<open>
  Claim C9. \<open>completeTrade\<close> called with an actual amount above the locked amount
  returns \<open>SUCCESS\<close> whenever the user's locked balance covers the locked amount: the
  locked amount is taken from the locked balance, nothing is credited to the available
  balance (the refund is negative and is dropped, not reported as \<open>SYSTEM_ERROR\<close>), and
  the locked balance left is not negative while the available balance is what it was.
  \<open>b\<close> is the user's entry, created empty if the user was unknown. The two subtractions
  of the source are signed, so they are taken not to overflow.
\<close>

theorem completeTrade_refund_clamped:
  assumes entry: "getOrCreateBalance u bs = (b, bs1)"
    and more: "lockedAmount <s actualAmount"
    and covered: "lockedAmount \<le>s lockedBalance b"
    and refund_fits: "- (2 ^ 63) \<le> sint lockedAmount - sint actualAmount"
    and locked_fits: "sint (lockedBalance b) - sint lockedAmount < 2 ^ 63"
  shows "completeTrade u lockedAmount actualAmount bs =
           (SUCCESS, bs1(u \<mapsto> b\<lparr>lockedBalance := lockedBalance b - lockedAmount\<rparr>))
         \<and> availableBalance (b\<lparr>lockedBalance := lockedBalance b - lockedAmount\<rparr>)
             = availableBalance b
         \<and> sint (lockedBalance b - lockedAmount) = sint (lockedBalance b) - sint lockedAmount
         \<and> 0 \<le>s lockedBalance b - lockedAmount"
proof -
  have lt: "sint lockedAmount < sint actualAmount"
    using more by (simp add: word_sless_alt)
  have le: "sint lockedAmount \<le> sint (lockedBalance b)"
    using covered by (simp add: word_sle_eq)
  have "sint (lockedAmount - actualAmount) = sint lockedAmount - sint actualAmount"
    using refund_fits lt by (intro sint_sub_no_overflow) auto
  then have no_refund: "\<not> 0 <s lockedAmount - actualAmount"
    using lt by (simp add: word_sless_alt)
  have guard: "\<not> lockedBalance b <s lockedAmount"
    using le by (simp add: word_sless_alt)
  have diff: "sint (lockedBalance b - lockedAmount) = sint (lockedBalance b) - sint lockedAmount"
    using locked_fits le by (intro sint_sub_no_overflow) auto
  then have "0 \<le>s lockedBalance b - lockedAmount"
    using le by (simp add: word_sle_eq)
  with diff no_refund guard entry show ?thesis
    by (simp add: completeTrade_def Let_def)
qed

theorem completeTrade_refund_clamped_witness:
  "completeTrade 1 30000 50000
       [1 \<mapsto> \<lparr>balanceUserId = 1, availableBalance = 900000, lockedBalance = 100000\<rparr>]
     = (SUCCESS,
        [1 \<mapsto> \<lparr>balanceUserId = 1, availableBalance = 900000, lockedBalance = 70000\<rparr>])"
proof -
  have entry:
    "getOrCreateBalance 1
       [1 \<mapsto> \<lparr>balanceUserId = 1, availableBalance = 900000, lockedBalance = 100000\<rparr>]
     = (\<lparr>balanceUserId = 1, availableBalance = 900000, lockedBalance = 100000\<rparr>,
        [1 \<mapsto> \<lparr>balanceUserId = 1, availableBalance = 900000, lockedBalance = 100000\<rparr>])"
    by (simp add: getOrCreateBalance_def)
  show ?thesis
    using completeTrade_refund_clamped [OF entry, of 30000 50000]
    by (simp add: word_sless_alt word_sle_eq)
qed

text \<open>Every operation that names a user leaves an entry for that user.\<close>

lemma ledger_entry_exists:
  "snd (getBalance u bs) u \<noteq> None"
  "snd (hasSufficientBalance u amount bs) u \<noteq> None"
  "snd (lockFunds u amount bs) u \<noteq> None"
  "snd (unlockFunds u amount bs) u \<noteq> None"
  "snd (completeTrade u amount actual bs) u \<noteq> None"
  "snd (transferFunds u v amount bs) u \<noteq> None"
  "snd (transferFunds v u amount bs) u \<noteq> None"
  by (auto simp: getBalance_def hasSufficientBalance_def lockFunds_def unlockFunds_def
                 completeTrade_def transferFunds_def getOrCreateBalance_def Let_def
           split: option.splits)

text \<open>
  Claim C10. A ledger operation on a user id that has no entry first creates the entry
  \<open>newBalance u\<close>, with available and locked balance 0, and then runs on it: every
  operation gives what it gives on the ledger that already holds this empty entry, and
  the ledger it returns has an entry for the user.
  So \<open>getBalance\<close> returns zeros, \<open>lockFunds\<close> of a positive amount fails with
  \<open>INSUFFICIENT_BALANCE\<close>, and a transfer to the unknown user from a sender whose
  available balance covers the amount succeeds and credits the new entry.
\<close>

theorem unknown_user_gets_empty_account:
  assumes "bs u = None"
  shows "availableBalance (newBalance u) = 0 \<and> lockedBalance (newBalance u) = 0
       \<and> getBalance u bs = (newBalance u, bs(u \<mapsto> newBalance u))
       \<and> hasSufficientBalance u amount bs
           = hasSufficientBalance u amount (bs(u \<mapsto> newBalance u))
       \<and> lockFunds u amount bs = lockFunds u amount (bs(u \<mapsto> newBalance u))
       \<and> unlockFunds u amount bs = unlockFunds u amount (bs(u \<mapsto> newBalance u))
       \<and> completeTrade u amount actual bs
           = completeTrade u amount actual (bs(u \<mapsto> newBalance u))
       \<and> transferFunds u v amount bs = transferFunds u v amount (bs(u \<mapsto> newBalance u))
       \<and> transferFunds v u amount bs = transferFunds v u amount (bs(u \<mapsto> newBalance u))
       \<and> snd (hasSufficientBalance u amount bs) u \<noteq> None
       \<and> snd (lockFunds u amount bs) u \<noteq> None
       \<and> snd (unlockFunds u amount bs) u \<noteq> None
       \<and> snd (completeTrade u amount actual bs) u \<noteq> None
       \<and> snd (transferFunds u v amount bs) u \<noteq> None
       \<and> snd (transferFunds v u amount bs) u \<noteq> None
       \<and> (0 <s amount \<longrightarrow>
            lockFunds u amount bs = (INSUFFICIENT_BALANCE, bs(u \<mapsto> newBalance u)))
       \<and> (\<forall>fb. bs v = Some fb \<and> amount \<le>s availableBalance fb \<longrightarrow>
             transferFunds v u amount bs =
               (SUCCESS, bs(v \<mapsto> fb\<lparr>availableBalance := availableBalance fb - amount\<rparr>,
                            u \<mapsto> (newBalance u)\<lparr>availableBalance := amount\<rparr>)))"
proof -
  have created: "getOrCreateBalance u bs = (newBalance u, bs(u \<mapsto> newBalance u))"
    using assms by (simp add: getOrCreateBalance_def)
  have present:
    "getOrCreateBalance u (bs(u \<mapsto> newBalance u)) = (newBalance u, bs(u \<mapsto> newBalance u))"
    by (simp add: getOrCreateBalance_def)
  have zero: "availableBalance (newBalance u) = 0 \<and> lockedBalance (newBalance u) = 0"
    by (simp add: newBalance_def)
  have from_u:
    "transferFunds u v amount bs = transferFunds u v amount (bs(u \<mapsto> newBalance u))"
    by (simp add: transferFunds_def created present)
  have to_u:
    "transferFunds v u amount bs = transferFunds v u amount (bs(u \<mapsto> newBalance u))"
  proof (cases "v = u")
    case True
    then show ?thesis using from_u by simp
  next
    case False
    then show ?thesis using assms
      by (cases "bs v") (simp_all add: transferFunds_def getOrCreateBalance_def fun_upd_twist)
  qed
  have lock:
    "0 <s amount \<longrightarrow>
       lockFunds u amount bs = (INSUFFICIENT_BALANCE, bs(u \<mapsto> newBalance u))"
    by (simp add: lockFunds_def created zero)
  have credit:
    "\<forall>fb. bs v = Some fb \<and> amount \<le>s availableBalance fb \<longrightarrow>
       transferFunds v u amount bs =
         (SUCCESS, bs(v \<mapsto> fb\<lparr>availableBalance := availableBalance fb - amount\<rparr>,
                      u \<mapsto> (newBalance u)\<lparr>availableBalance := amount\<rparr>))"
    using assms
    by (auto simp: transferFunds_def getOrCreateBalance_def Let_def zero fun_upd_twist
                   word_sless_alt word_sle_eq)
  have same:
    "getBalance u bs = (newBalance u, bs(u \<mapsto> newBalance u))
     \<and> hasSufficientBalance u amount bs
         = hasSufficientBalance u amount (bs(u \<mapsto> newBalance u))
     \<and> lockFunds u amount bs = lockFunds u amount (bs(u \<mapsto> newBalance u))
     \<and> unlockFunds u amount bs = unlockFunds u amount (bs(u \<mapsto> newBalance u))
     \<and> completeTrade u amount actual bs
         = completeTrade u amount actual (bs(u \<mapsto> newBalance u))"
    by (simp add: getBalance_def hasSufficientBalance_def lockFunds_def unlockFunds_def
                  completeTrade_def created present)
  have kept:
    "snd (hasSufficientBalance u amount bs) u \<noteq> None
     \<and> snd (lockFunds u amount bs) u \<noteq> None
     \<and> snd (unlockFunds u amount bs) u \<noteq> None
     \<and> snd (completeTrade u amount actual bs) u \<noteq> None
     \<and> snd (transferFunds u v amount bs) u \<noteq> None
     \<and> snd (transferFunds v u amount bs) u \<noteq> None"
    by (simp add: ledger_entry_exists)
  from zero same from_u to_u kept lock credit show ?thesis by blast
qed

theorem unknown_user_gets_empty_account_witness:
  "getBalance 2 (initializeBalance 1 1000 Map.empty)
     = (\<lparr>balanceUserId = 2, availableBalance = 0, lockedBalance = 0\<rparr>,
        (initializeBalance 1 1000 Map.empty)
          (2 \<mapsto> \<lparr>balanceUserId = 2, availableBalance = 0, lockedBalance = 0\<rparr>))
   \<and> lockFunds 2 300 (initializeBalance 1 1000 Map.empty)
     = (INSUFFICIENT_BALANCE,
        (initializeBalance 1 1000 Map.empty)
          (2 \<mapsto> \<lparr>balanceUserId = 2, availableBalance = 0, lockedBalance = 0\<rparr>))
   \<and> transferFunds 1 2 300 (initializeBalance 1 1000 Map.empty)
     = (SUCCESS,
        [1 \<mapsto> \<lparr>balanceUserId = 1, availableBalance = 700, lockedBalance = 0\<rparr>,
         2 \<mapsto> \<lparr>balanceUserId = 2, availableBalance = 300, lockedBalance = 0\<rparr>])"
proof -
  have unknown: "(initializeBalance 1 1000 Map.empty) (2 :: UserId) = None"
    by (simp add: initializeBalance_def)
  have known: "(initializeBalance 1 1000 Map.empty) (1 :: UserId)
                 = Some \<lparr>balanceUserId = 1, availableBalance = 1000, lockedBalance = 0\<rparr>"
    by (simp add: initializeBalance_def)
  note inst = unknown_user_gets_empty_account
        [where bs = "initializeBalance 1 1000 Map.empty" and u = 2 and amount = 300 and v = 1
           and actual = 0, OF unknown]
  from inst have balance:
    "getBalance 2 (initializeBalance 1 1000 Map.empty)
       = (newBalance 2, (initializeBalance 1 1000 Map.empty)(2 \<mapsto> newBalance 2))"
    by blast
  from inst have lock:
    "0 <s (300 :: 64 word) \<longrightarrow>
       lockFunds 2 300 (initializeBalance 1 1000 Map.empty)
         = (INSUFFICIENT_BALANCE, (initializeBalance 1 1000 Map.empty)(2 \<mapsto> newBalance 2))"
    by blast
  from inst have credit:
    "\<forall>fb. (initializeBalance 1 1000 Map.empty) 1 = Some fb \<and> 300 \<le>s availableBalance fb \<longrightarrow>
        transferFunds 1 2 300 (initializeBalance 1 1000 Map.empty) =
          (SUCCESS, (initializeBalance 1 1000 Map.empty)
                      (1 \<mapsto> fb\<lparr>availableBalance := availableBalance fb - 300\<rparr>,
                       2 \<mapsto> (newBalance 2)\<lparr>availableBalance := 300\<rparr>))"
    by blast
  show ?thesis
    using balance lock credit known
    by (simp add: newBalance_def initializeBalance_def word_sless_alt word_sle_eq)
qed

section \<open>Scenarios where the engine departs from its specification\<close>

text \<open>
  Claim C1. The simple cross: user 2 rests \<open>SELL LIMIT GFD 10000 qty=5\<close>, user 1 sends
  \<open>BUY LIMIT GFD 10500 qty=5\<close>. One trade at 10000 for 5 units is emitted, both orders
  end \<open>FILLED\<close> and user 2 ends with 1,050,000 available. User 1 ends with 900,000
  available, not 950,000: \<open>completeTrade\<close> takes the 52,500 out of the locked balance
  and gives back 2,500, and \<open>transferFunds\<close> then takes the 50,000 out of the
  available balance a second time.
\<close>

theorem simple_cross_debits_buyer_twice:
  "simpleCrossOutcome =
     Some ([\<lparr>tradeId = 1, buyOrderId = 2, sellOrderId = 1, buyUserId = 1, sellUserId = 2,
              tradeSymbol = ''X'', tradePrice = 10000, tradeQuantity = 5\<rparr>],
           FILLED, FILLED,
           Some \<lparr>balanceUserId = 1, availableBalance = 900000, lockedBalance = 0\<rparr>,
           Some \<lparr>balanceUserId = 2, availableBalance = 1050000, lockedBalance = 0\<rparr>)"
  by code_simp

text \<open>
  Claim C2. \<open>processOrder\<close> runs the matching loop first and asks \<open>handleFOK\<close>
  afterwards. For \<open>BUY LIMIT FOK 10000 qty=10\<close> against a book that holds 3 units at
  10000, the trade for the 3 units is executed and emitted, the resting sell order is
  filled and leaves the book, and only then the order is found unfillable: the returned
  list is empty and the status \<open>CANCELLED\<close>, but \<open>unlockFunds\<close> of 100,000 fails on
  the 70,000 still locked, which stay locked.
\<close>

theorem fok_checked_after_matching:
  "fokShortBefore =
     Some ([(10000, 3)],
           \<lparr>orderId = 1, userId = 2, symbol = ''X'', side = SELL, orderType = LIMIT,
            timeInForce = GFD, price = 10000, quantity = 3, filledQuantity = 0,
            status = PENDING\<rparr>)
   \<and> fokShortOutcome =
     Some ([],
           [\<lparr>tradeId = 1, buyOrderId = 2, sellOrderId = 1, buyUserId = 1, sellUserId = 2,
             tradeSymbol = ''X'', tradePrice = 10000, tradeQuantity = 3\<rparr>],
           [],
           \<lparr>orderId = 1, userId = 2, symbol = ''X'', side = SELL, orderType = LIMIT,
            timeInForce = GFD, price = 10000, quantity = 3, filledQuantity = 3,
            status = FILLED\<rparr>,
           CANCELLED,
           Some \<lparr>balanceUserId = 1, availableBalance = 870000, lockedBalance = 70000\<rparr>)"
  by code_simp

text \<open>
  Claim C3. A fill adds to the filled quantity of the resting order and leaves the
  total of its level alone. After 4 of the 10 resting units are bought, the level at
  10000 still reports a total of 10 while its one order has 6 units unfilled.
\<close>

theorem level_total_stale_after_partial_fill:
  "partialFillOutcome = Some [(10000, 10, 6)]"
  by code_simp

text \<open>
  Claim C4. A fill-or-kill order for exactly the 10 units that rest is filled by the
  matching loop and is \<open>FILLED\<close> when \<open>matchLimitOrder\<close> returns. The check in
  \<open>handleFOK\<close> then looks at the book the loop has emptied, fails, and
  \<open>processOrder\<close> sets the status to \<open>CANCELLED\<close> with 10 of 10 units filled.
\<close>

theorem filled_fok_order_becomes_cancelled:
  "fokExactMatched = Some FILLED \<and> fokExactProcessed = Some (CANCELLED, 10, 10)"
  by code_simp

section \<open>Order data that the engine never rewrites\<close>

lemma sameOrderData_refl: "sameOrderData h h"
  by (simp add: sameOrderData_def)

lemma sameOrderData_trans:
  "sameOrderData h1 h2 \<Longrightarrow> sameOrderData h2 h3 \<Longrightarrow> sameOrderData h1 h3"
  by (simp add: sameOrderData_def)

lemma sameOrderData_fields:
  assumes "sameOrderData h h'"
  shows "orderId (h' x) = orderId (h x)" and "userId (h' x) = userId (h x)"
    and "symbol (h' x) = symbol (h x)" and "side (h' x) = side (h x)"
    and "orderType (h' x) = orderType (h x)" and "timeInForce (h' x) = timeInForce (h x)"
    and "price (h' x) = price (h x)" and "quantity (h' x) = quantity (h x)"
proof -
  from assms have eq: "(h' x)\<lparr>filledQuantity := 0, status := PENDING\<rparr>
                       = (h x)\<lparr>filledQuantity := 0, status := PENDING\<rparr>"
    by (simp add: sameOrderData_def)
  show "orderId (h' x) = orderId (h x)" using arg_cong [OF eq, of orderId] by simp
  show "userId (h' x) = userId (h x)" using arg_cong [OF eq, of userId] by simp
  show "symbol (h' x) = symbol (h x)" using arg_cong [OF eq, of symbol] by simp
  show "side (h' x) = side (h x)" using arg_cong [OF eq, of side] by simp
  show "orderType (h' x) = orderType (h x)" using arg_cong [OF eq, of orderType] by simp
  show "timeInForce (h' x) = timeInForce (h x)" using arg_cong [OF eq, of timeInForce] by simp
  show "price (h' x) = price (h x)" using arg_cong [OF eq, of price] by simp
  show "quantity (h' x) = quantity (h x)" using arg_cong [OF eq, of quantity] by simp
qed

lemma sameOrderData_setStatus: "sameOrderData (heap s) (heap (setStatus r st s))"
  by (simp add: sameOrderData_def setStatus_def)

lemma sameOrderData_addFilledQuantity: "sameOrderData (heap s) (heap (addFilledQuantity r q s))"
  by (simp add: sameOrderData_def addFilledQuantity_def)

section \<open>What one fill does\<close>

lemma executeTrade_heap: "heap (snd (executeTrade b sl p q s)) = heap s"
  by (simp add: executeTrade_def Let_def)

lemma executeTrade_events: "events (snd (executeTrade b sl p q s)) = events s"
  by (simp add: executeTrade_def Let_def)

lemma executeTrade_books:
  "orderBooks (snd (executeTrade b sl p q s)) =
     (orderBooks s)(symbol (heap s b) := updateLastTrade p q (orderBooks s (symbol (heap s b))))"
  by (simp add: executeTrade_def Let_def getOrderBook_def)

lemma executeTrade_trade:
  "fst (executeTrade b sl p q s) =
     \<lparr>tradeId = nextTradeId s, buyOrderId = orderId (heap s b), sellOrderId = orderId (heap s sl),
      buyUserId = userId (heap s b), sellUserId = userId (heap s sl),
      tradeSymbol = symbol (heap s b), tradePrice = p, tradeQuantity = q\<rparr>"
  by (simp add: executeTrade_def Let_def)

lemma executeTrade_balances:
  "balances (snd (executeTrade b sl p q s)) =
     snd (transferFunds (userId (heap s b)) (userId (heap s sl)) (p * q)
            (snd (completeTrade (userId (heap s b)) (price (heap s b) * q) (p * q) (balances s))))"
  by (simp add: executeTrade_def Let_def)

lemma fill_heap:
  assumes "fill r c bk s = (t, s')"
  shows "sameOrderData (heap s) (heap s')"
  using assms
  by (auto simp: fill_def Let_def executeTrade_def sameOrderData_def heap_defs
           split: prod.splits if_splits)

lemma executeTrade_orders: "orders (snd (executeTrade b sl p q s)) = orders s"
  by (simp add: executeTrade_def Let_def)

lemma fill_orders:
  assumes "fill r c bk s = (t, s')"
  shows "orders s' = orders s"
  using assms
        executeTrade_orders [of "if side (heap s r) = BUY then r else c"
          "if side (heap s r) = SELL then r else c" "price (heap s c)"
          "min (quantity (heap s r) - filledQuantity (heap s r))
               (quantity (heap s c) - filledQuantity (heap s c))" s]
  by (cases "executeTrade (if side (heap s r) = BUY then r else c)
               (if side (heap s r) = SELL then r else c) (price (heap s c))
               (min (quantity (heap s r) - filledQuantity (heap s r))
                    (quantity (heap s c) - filledQuantity (heap s c))) s")
     (auto simp: fill_def Let_def heap_defs split: if_splits)

lemma fill_trade:
  assumes "fill r c bk s = (t, s')"
  shows "t = fst (executeTrade (if side (heap s r) = BUY then r else c)
                     (if side (heap s r) = SELL then r else c) (price (heap s c))
                     (min (quantity (heap s r) - filledQuantity (heap s r))
                          (quantity (heap s c) - filledQuantity (heap s c))) s)"
  using assms by (auto simp: fill_def Let_def split: prod.splits)


section \<open>Removal never adds an order to a ladder\<close>

lemma ladderRefs_Cons: "ladderRefs ((p, lvl) # rest) = levelOrders lvl @ ladderRefs rest"
  by (simp add: ladderRefs_def)

lemma ladderRefs_Nil: "ladderRefs [] = []"
  by (simp add: ladderRefs_def)

lemma ladderRefs_eraseLevel: "set (ladderRefs (eraseLevel p levels)) \<subseteq> set (ladderRefs levels)"
  by (induction levels) (auto simp: eraseLevel_def ladderRefs_Cons ladderRefs_Nil)

lemma ladderRefs_updateLevel:
  assumes "\<And>lvl. set (levelOrders (f lvl)) \<subseteq> set (levelOrders lvl)"
  shows "set (ladderRefs (updateLevel p f levels)) \<subseteq> set (ladderRefs levels)"
proof (induction levels)
  case Nil
  then show ?case by (simp add: updateLevel_def)
next
  case (Cons a levels)
  obtain q m where a: "a = (q, m)" by (cases a)
  from Cons have "set (ladderRefs (updateLevel p f levels)) \<subseteq> set (ladderRefs levels)" .
  then show ?case using assms [of m]
    by (auto simp: a updateLevel_def ladderRefs_Cons)
qed

lemma set_eraseNode:
  "set (eraseNode r nodes) \<subseteq> set nodes"
  using set_remove1_subset [of r "rev nodes"] by (simp add: eraseNode_def)

lemma eraseNode_front:
  assumes "c \<notin> set others"
  shows "eraseNode c (c # others) = others"
  using assms by (simp add: eraseNode_def remove1_append)

lemma levelOrders_removeOrder:
  "set (levelOrders (PriceLevel_removeOrder h oid lvl)) \<subseteq> set (levelOrders lvl)"
  using set_eraseNode
  by (fastforce simp: PriceLevel_removeOrder_def split: option.splits)

lemma ladderRefs_removeFromLadder:
  "set (ladderRefs (removeFromLadder h oid p levels)) \<subseteq> set (ladderRefs levels)"
  using ladderRefs_eraseLevel [of p levels]
        ladderRefs_updateLevel [of "PriceLevel_removeOrder h oid" p levels]
        levelOrders_removeOrder [of h oid]
  by (auto simp: removeFromLadder_def split: option.splits)

lemma removeOrder_asks:
  "set (ladderRefs (askLevels (snd (OrderBook_removeOrder h oid sd book))))
     \<subseteq> set (ladderRefs (askLevels book))"
  using ladderRefs_removeFromLadder [of h oid _ "askLevels book"]
  by (auto simp: OrderBook_removeOrder_def Let_def split: option.splits)

lemma removeOrder_bids:
  "set (ladderRefs (bidLevels (snd (OrderBook_removeOrder h oid sd book))))
     \<subseteq> set (ladderRefs (bidLevels book))"
  using ladderRefs_removeFromLadder [of h oid _ "bidLevels book"]
  by (auto simp: OrderBook_removeOrder_def Let_def split: option.splits)

lemma removeOrder_lastTrade:
  "lastTradePrice (snd (OrderBook_removeOrder h oid sd book)) = lastTradePrice book
   \<and> totalVolume (snd (OrderBook_removeOrder h oid sd book)) = totalVolume book"
  by (simp add: OrderBook_removeOrder_def Let_def split: option.splits)

lemma fill_books:
  assumes "fill r c bk s = (t, s')"
  shows "set (ladderRefs (askLevels (orderBooks s' b))) \<subseteq> set (ladderRefs (askLevels (orderBooks s b)))
       \<and> set (ladderRefs (bidLevels (orderBooks s' b))) \<subseteq> set (ladderRefs (bidLevels (orderBooks s b)))"
proof -
  let ?buy = "if side (heap s r) = BUY then r else c"
  let ?sell = "if side (heap s r) = SELL then r else c"
  let ?q = "min (quantity (heap s r) - filledQuantity (heap s r))
                (quantity (heap s c) - filledQuantity (heap s c))"
  let ?s1 = "snd (executeTrade ?buy ?sell (price (heap s c)) ?q s)"
  have step: "set (ladderRefs (askLevels (orderBooks ?s1 b))) = set (ladderRefs (askLevels (orderBooks s b)))
       \<and> set (ladderRefs (bidLevels (orderBooks ?s1 b))) = set (ladderRefs (bidLevels (orderBooks s b)))"
    by (simp add: executeTrade_books updateLastTrade_def)
  have "orderBooks s' = orderBooks ?s1
        \<or> orderBooks s' =
              (orderBooks ?s1)(bk := snd (OrderBook_removeOrder (heap s') (orderId (heap s' c))
                                            (side (heap s' c)) (orderBooks ?s1 bk)))"
    using assms
    by (cases "executeTrade ?buy ?sell (price (heap s c)) ?q s")
       (auto simp: fill_def Let_def heap_defs split: if_splits)
  then have "orderBooks s' = orderBooks ?s1
        \<or> (\<exists>h oid sd. orderBooks s' =
              (orderBooks ?s1)(bk := snd (OrderBook_removeOrder h oid sd (orderBooks ?s1 bk))))"
    by blast
  then show ?thesis
  proof
    assume "orderBooks s' = orderBooks ?s1"
    then show ?thesis using step by simp
  next
    assume "\<exists>h oid sd. orderBooks s' =
              (orderBooks ?s1)(bk := snd (OrderBook_removeOrder h oid sd (orderBooks ?s1 bk)))"
    then obtain h oid sd where
      eq: "orderBooks s' = (orderBooks ?s1)(bk := snd (OrderBook_removeOrder h oid sd (orderBooks ?s1 bk)))"
      by blast
    show ?thesis
    proof (cases "b = bk")
      case True
      then show ?thesis
        using step removeOrder_asks [of h oid sd "orderBooks ?s1 bk"]
              removeOrder_bids [of h oid sd "orderBooks ?s1 bk"]
        by (simp add: eq)
    next
      case False
      then show ?thesis using step by (simp add: eq)
    qed
  qed
qed

lemma bestAsk_resting:
  "getBestAskOrder book = Some c \<Longrightarrow> c \<in> set (ladderRefs (askLevels book))"
  by (auto simp: getBestAskOrder_def getFirstOrder_def ladderRefs_Cons split: list.splits)

lemma bestBid_resting:
  "getBestBidOrder book = Some c \<Longrightarrow> c \<in> set (ladderRefs (bidLevels book))"
  by (auto simp: getBestBidOrder_def getFirstOrder_def ladderRefs_Cons split: list.splits)


section \<open>The matching loops\<close>

lemma afterFills_refl: "afterFills s s"
  by (simp add: afterFills_def sameOrderData_refl)

lemma afterFills_trans:
  assumes "afterFills s1 s2" and "afterFills s2 s3"
  shows "afterFills s1 s3"
proof -
  from assms have "sameOrderData (heap s1) (heap s3)"
    by (auto simp: afterFills_def intro: sameOrderData_trans)
  moreover from assms have "orders s3 = orders s1"
    by (simp add: afterFills_def)
  moreover have "set (ladderRefs (askLevels (orderBooks s3 b)))
                   \<subseteq> set (ladderRefs (askLevels (orderBooks s1 b)))" for b
  proof -
    from assms have
      "set (ladderRefs (askLevels (orderBooks s3 b))) \<subseteq> set (ladderRefs (askLevels (orderBooks s2 b)))"
      "set (ladderRefs (askLevels (orderBooks s2 b))) \<subseteq> set (ladderRefs (askLevels (orderBooks s1 b)))"
      by (simp_all add: afterFills_def)
    then show ?thesis by (rule subset_trans)
  qed
  moreover have "set (ladderRefs (bidLevels (orderBooks s3 b)))
                   \<subseteq> set (ladderRefs (bidLevels (orderBooks s1 b)))" for b
  proof -
    from assms have
      "set (ladderRefs (bidLevels (orderBooks s3 b))) \<subseteq> set (ladderRefs (bidLevels (orderBooks s2 b)))"
      "set (ladderRefs (bidLevels (orderBooks s2 b))) \<subseteq> set (ladderRefs (bidLevels (orderBooks s1 b)))"
      by (simp_all add: afterFills_def)
    then show ?thesis by (rule subset_trans)
  qed
  ultimately show ?thesis by (simp add: afterFills_def)
qed

lemma afterFills_bookRefs:
  assumes "afterFills s s'"
  shows "set (bookRefs (orderBooks s' b)) \<subseteq> set (bookRefs (orderBooks s b))"
  using assms by (auto simp: afterFills_def bookRefs_def)

lemma fill_afterFills: "fill r c bk s = (t, s') \<Longrightarrow> afterFills s s'"
  by (simp add: afterFills_def fill_heap fill_books fill_orders)

lemma setStatus_afterFills: "afterFills s (setStatus r st s)"
  by (simp add: afterFills_def sameOrderData_setStatus) (simp add: setStatus_def)

lemma matchLimitLoop_step:
  assumes "matchLimitLoop (Suc n) r bk ts s = Some (ts', s')"
  obtains (stop) "ts' = ts" and "s' = s"
  | (step) c t s1 where
      "if side (heap s r) = BUY then getBestAskOrder (orderBooks s bk) = Some c
       else getBestBidOrder (orderBooks s bk) = Some c"
      and "if side (heap s r) = BUY then \<not> price (heap s r) <s price (heap s c)
           else \<not> price (heap s c) <s price (heap s r)"
      and "filledQuantity (heap s r) < quantity (heap s r)"
      and "fill r c bk s = (t, s1)"
      and "matchLimitLoop n r bk (ts @ [t]) s1 = Some (ts', s')"
  using assms by (auto split: if_splits option.splits prod.splits)

lemma matchMarketLoop_step:
  assumes "matchMarketLoop (Suc n) r bk ts s = Some (ts', s')"
  obtains (stop) "ts' = ts" and "s' = s"
  | (step) c t s1 where
      "if side (heap s r) = BUY then getBestAskOrder (orderBooks s bk) = Some c
       else getBestBidOrder (orderBooks s bk) = Some c"
      and "filledQuantity (heap s r) < quantity (heap s r)"
      and "fill r c bk s = (t, s1)"
      and "matchMarketLoop n r bk (ts @ [t]) s1 = Some (ts', s')"
  using assms by (auto split: if_splits option.splits prod.splits)

lemma matchLimitLoop_afterFills:
  "matchLimitLoop n r bk ts s = Some (ts', s') \<Longrightarrow> afterFills s s'"
proof (induction n arbitrary: ts s)
  case 0
  then show ?case by simp
next
  case (Suc n)
  from Suc.prems show ?case
  proof (cases rule: matchLimitLoop_step)
    case stop
    then show ?thesis by (simp add: afterFills_refl)
  next
    case (step c t s1)
    from fill_afterFills [OF step(4)] Suc.IH [OF step(5)] show ?thesis
      by (rule afterFills_trans)
  qed
qed

lemma matchMarketLoop_afterFills:
  "matchMarketLoop n r bk ts s = Some (ts', s') \<Longrightarrow> afterFills s s'"
proof (induction n arbitrary: ts s)
  case 0
  then show ?case by simp
next
  case (Suc n)
  from Suc.prems show ?case
  proof (cases rule: matchMarketLoop_step)
    case stop
    then show ?thesis by (simp add: afterFills_refl)
  next
    case (step c t s1)
    from fill_afterFills [OF step(3)] Suc.IH [OF step(4)] show ?thesis
      by (rule afterFills_trans)
  qed
qed

lemma matchLimitOrder_Some:
  assumes "matchLimitOrder fuel r bk s = Some (ts, s')"
  obtains s1 where "matchLimitLoop fuel r bk [] s = Some (ts, s1)"
    and "s' = (if quantity (heap s1 r) \<le> filledQuantity (heap s1 r) then setStatus r FILLED s1
               else if 0 < filledQuantity (heap s1 r) then setStatus r PARTIALLY_FILLED s1
               else s1)"
proof (cases "matchLimitLoop fuel r bk [] s")
  case None
  with assms show ?thesis by (simp add: matchLimitOrder_def)
next
  case (Some res)
  obtain ts1 s1 where res: "res = (ts1, s1)" by (cases res)
  from assms Some res show ?thesis
    by (intro that [of s1]) (simp_all add: matchLimitOrder_def)
qed

lemma matchMarketOrder_Some:
  assumes "matchMarketOrder fuel r bk s = Some (ts, s')"
  obtains s1 where "matchMarketLoop fuel r bk [] s = Some (ts, s1)"
    and "s' = (if quantity (heap s1 r) \<le> filledQuantity (heap s1 r) then setStatus r FILLED s1
               else if 0 < filledQuantity (heap s1 r) then setStatus r PARTIALLY_FILLED s1
               else setStatus r CANCELLED s1)"
proof (cases "matchMarketLoop fuel r bk [] s")
  case None
  with assms show ?thesis by (simp add: matchMarketOrder_def)
next
  case (Some res)
  obtain ts1 s1 where res: "res = (ts1, s1)" by (cases res)
  from assms Some res show ?thesis
    by (intro that [of s1]) (simp_all add: matchMarketOrder_def)
qed

lemma matchLimitOrder_afterFills:
  assumes "matchLimitOrder fuel r bk s = Some (ts, s')"
  shows "afterFills s s'"
proof -
  from assms obtain s1 where loop: "matchLimitLoop fuel r bk [] s = Some (ts, s1)"
    and s': "s' = (if quantity (heap s1 r) \<le> filledQuantity (heap s1 r) then setStatus r FILLED s1
               else if 0 < filledQuantity (heap s1 r) then setStatus r PARTIALLY_FILLED s1
               else s1)"
    by (rule matchLimitOrder_Some)
  from s' have "afterFills s1 s'"
    by (simp add: afterFills_refl setStatus_afterFills)
  with matchLimitLoop_afterFills [OF loop] show ?thesis by (rule afterFills_trans)
qed

lemma matchMarketOrder_afterFills:
  assumes "matchMarketOrder fuel r bk s = Some (ts, s')"
  shows "afterFills s s'"
proof -
  from assms obtain s1 where loop: "matchMarketLoop fuel r bk [] s = Some (ts, s1)"
    and s': "s' = (if quantity (heap s1 r) \<le> filledQuantity (heap s1 r) then setStatus r FILLED s1
               else if 0 < filledQuantity (heap s1 r) then setStatus r PARTIALLY_FILLED s1
               else setStatus r CANCELLED s1)"
    by (rule matchMarketOrder_Some)
  from s' have "afterFills s1 s'"
    by (simp add: afterFills_refl setStatus_afterFills)
  with matchMarketLoop_afterFills [OF loop] show ?thesis by (rule afterFills_trans)
qed

text \<open>A fill against the best order of the opposite side is priced by that order.\<close>

lemma fill_makerPriced:
  assumes later: "afterFills s0 s"
    and f: "fill r c bk s = (t, s')"
    and best: "if side (heap s r) = BUY then getBestAskOrder (orderBooks s bk) = Some c
               else getBestBidOrder (orderBooks s bk) = Some c"
  shows "makerPriced s0 r bk t"
proof -
  from later have same: "sameOrderData (heap s0) (heap s)"
    and asks: "set (ladderRefs (askLevels (orderBooks s bk))) \<subseteq> set (ladderRefs (askLevels (orderBooks s0 bk)))"
    and bids: "set (ladderRefs (bidLevels (orderBooks s bk))) \<subseteq> set (ladderRefs (bidLevels (orderBooks s0 bk)))"
    by (simp_all add: afterFills_def)
  note fields = sameOrderData_fields [OF same]
  show ?thesis
  proof (cases "side (heap s r) = BUY")
    case True
    with best have "c \<in> set (ladderRefs (askLevels (orderBooks s0 bk)))"
      using asks bestAsk_resting by auto
    moreover have "tradePrice t = price (heap s0 c) \<and> sellOrderId t = orderId (heap s0 c)
                   \<and> buyOrderId t = orderId (heap s0 r)"
      using True by (simp add: fill_trade [OF f] executeTrade_trade fields)
    ultimately show ?thesis using True by (auto simp: makerPriced_def fields)
  next
    case False
    then have sell: "side (heap s r) = SELL" by (cases "side (heap s r)") auto
    with best have "c \<in> set (ladderRefs (bidLevels (orderBooks s0 bk)))"
      using bids bestBid_resting by auto
    moreover have "tradePrice t = price (heap s0 c) \<and> buyOrderId t = orderId (heap s0 c)
                   \<and> sellOrderId t = orderId (heap s0 r)"
      using sell by (simp add: fill_trade [OF f] executeTrade_trade fields)
    ultimately show ?thesis using sell by (auto simp: makerPriced_def fields)
  qed
qed

lemma fill_tradePrice: "fill r c bk s = (t, s') \<Longrightarrow> tradePrice t = price (heap s c)"
  using fill_trade [of r c bk s t s'] by (simp add: executeTrade_trade)

lemma matchLimitLoop_trades:
  assumes "matchLimitLoop n r bk ts s = Some (ts', s')"
    and "afterFills s0 s"
    and "\<forall>t \<in> set ts. makerPriced s0 r bk t \<and> withinLimit (heap s0 r) t"
  shows "\<forall>t \<in> set ts'. makerPriced s0 r bk t \<and> withinLimit (heap s0 r) t"
  using assms
proof (induction n arbitrary: ts s)
  case 0
  then show ?case by simp
next
  case (Suc n)
  from Suc.prems(2) have same: "sameOrderData (heap s0) (heap s)" by (simp add: afterFills_def)
  note fields = sameOrderData_fields [OF same]
  from Suc.prems(1) show ?case
  proof (cases rule: matchLimitLoop_step)
    case stop
    with Suc.prems(3) show ?thesis by simp
  next
    case (step c t s1)
    have maker: "makerPriced s0 r bk t"
      using Suc.prems(2) step(4) step(1) by (rule fill_makerPriced)
    have "withinLimit (heap s0 r) t"
      using step(2) fill_tradePrice [OF step(4)]
      by (cases "side (heap s r)") (simp_all add: withinLimit_def fields)
    with maker Suc.prems(3)
    have all: "\<forall>t \<in> set (ts @ [t]). makerPriced s0 r bk t \<and> withinLimit (heap s0 r) t"
      by simp
    have later: "afterFills s0 s1"
      using Suc.prems(2) fill_afterFills [OF step(4)] by (rule afterFills_trans)
    from step(5) later all show ?thesis by (rule Suc.IH)
  qed
qed

lemma matchMarketLoop_trades:
  assumes "matchMarketLoop n r bk ts s = Some (ts', s')"
    and "afterFills s0 s"
    and "\<forall>t \<in> set ts. makerPriced s0 r bk t"
  shows "\<forall>t \<in> set ts'. makerPriced s0 r bk t"
  using assms
proof (induction n arbitrary: ts s)
  case 0
  then show ?case by simp
next
  case (Suc n)
  from Suc.prems(1) show ?case
  proof (cases rule: matchMarketLoop_step)
    case stop
    with Suc.prems(3) show ?thesis by simp
  next
    case (step c t s1)
    have "makerPriced s0 r bk t"
      using Suc.prems(2) step(3) step(1) by (rule fill_makerPriced)
    with Suc.prems(3) have all: "\<forall>t \<in> set (ts @ [t]). makerPriced s0 r bk t"
      by simp
    have later: "afterFills s0 s1"
      using Suc.prems(2) fill_afterFills [OF step(3)] by (rule afterFills_trans)
    from step(4) later all show ?thesis by (rule Suc.IH)
  qed
qed

section \<open>Fuel\<close>

text \<open>A run that has returned returns the same with more fuel.\<close>

lemma matchLimitLoop_more_fuel:
  "matchLimitLoop n r bk ts s = Some x \<Longrightarrow> matchLimitLoop (n + k) r bk ts s = Some x"
proof (induction n arbitrary: ts s)
  case 0
  then show ?case by simp
next
  case (Suc n)
  then show ?case
    by (auto split: if_splits option.splits prod.splits)
qed

lemma matchMarketLoop_more_fuel:
  "matchMarketLoop n r bk ts s = Some x \<Longrightarrow> matchMarketLoop (n + k) r bk ts s = Some x"
proof (induction n arbitrary: ts s)
  case 0
  then show ?case by simp
next
  case (Suc n)
  then show ?case
    by (auto split: if_splits option.splits prod.splits)
qed

lemma processOrder_more_fuel:
  assumes "processOrder n r s = Some x"
  shows "processOrder (n + k) r s = Some x"
proof (cases "orderType (heap s r) = LIMIT")
  case True
  with assms obtain y where y: "matchLimitOrder n r (symbol (heap s r)) s = Some y"
    by (auto simp: processOrder_def Let_def split: option.splits)
  then obtain z where z: "matchLimitLoop n r (symbol (heap s r)) [] s = Some z"
    by (auto simp: matchLimitOrder_def split: option.splits)
  from matchLimitLoop_more_fuel [OF z, of k] z
  have "matchLimitOrder (n + k) r (symbol (heap s r)) s
          = matchLimitOrder n r (symbol (heap s r)) s"
    by (simp add: matchLimitOrder_def)
  with y have "matchLimitOrder (n + k) r (symbol (heap s r)) s = Some y"
    by simp
  with assms y True show ?thesis
    by (simp add: processOrder_def Let_def)
next
  case False
  with assms obtain y where y: "matchMarketOrder n r (symbol (heap s r)) s = Some y"
    by (auto simp: processOrder_def Let_def split: option.splits)
  then obtain z where z: "matchMarketLoop n r (symbol (heap s r)) [] s = Some z"
    by (auto simp: matchMarketOrder_def split: option.splits)
  from matchMarketLoop_more_fuel [OF z, of k] z
  have "matchMarketOrder (n + k) r (symbol (heap s r)) s
          = matchMarketOrder n r (symbol (heap s r)) s"
    by (simp add: matchMarketOrder_def)
  with y have "matchMarketOrder (n + k) r (symbol (heap s r)) s = Some y"
    by simp
  with assms y False show ?thesis
    by (simp add: processOrder_def Let_def)
qed

section \<open>Well-formed books\<close>

lemma ladderWellFormed_refs:
  assumes "ladderWellFormed h book sd levels" and "c \<in> set (ladderRefs levels)"
  shows "side (h c) = sd \<and> bookOrderMap book (orderId (h c)) = Some c"
  using assms
  by (induction levels)
     (auto simp: ladderWellFormed_def levelWellFormed_def ladderRefs_Cons ladderRefs_Nil)

lemma ladderWellFormed_ids:
  assumes "ladderWellFormed h book sd levels" and "ladderWellFormed h book sd' levels'"
    and "c \<in> set (ladderRefs levels)" and "c' \<in> set (ladderRefs levels')"
    and "orderId (h c') = orderId (h c)"
  shows "c' = c"
  using ladderWellFormed_refs [OF assms(1) assms(3)] ladderWellFormed_refs [OF assms(2) assms(4)]
        assms(5)
  by simp

lemma eraseLevel_front:
  assumes "p \<notin> fst ` set rest"
  shows "eraseLevel p ((p, lvl) # rest) = rest"
proof -
  have "filter (\<lambda>(q, m). q \<noteq> p) rest = rest"
    using assms by (induction rest) auto
  then show ?thesis by (simp add: eraseLevel_def)
qed

lemma updateLevel_front:
  assumes "p \<notin> fst ` set rest"
  shows "updateLevel p f ((p, lvl) # rest) = (p, f lvl) # rest"
proof -
  have "map (\<lambda>(q, m). if q = p then (q, f m) else (q, m)) rest = rest"
    using assms by (induction rest) auto
  then show ?thesis by (simp add: updateLevel_def)
qed

text \<open>Removing the first order of the first level of a well-formed ladder.\<close>

lemma removeFromLadder_front:
  assumes wf: "ladderWellFormed h book sd ((p, lvl) # rest)"
    and front: "levelOrders lvl = c # others"
    and same: "sameOrderData h h'"
  shows "removeFromLadder h' (orderId (h' c)) (price (h' c)) ((p, lvl) # rest) =
           (if others = [] then rest
            else (p, lvl\<lparr>totalQuantity := totalQuantity lvl - (quantity (h' c) - filledQuantity (h' c)),
                       levelOrders := others,
                       levelOrderMap := (levelOrderMap lvl)(orderId (h c) := None)\<rparr>) # rest)"
proof -
  note fields = sameOrderData_fields [OF same]
  from wf have keys: "p \<notin> fst ` set rest"
    by (simp add: ladderWellFormed_def)
  from wf front have c: "price (h c) = p" "levelOrderMap lvl (orderId (h c)) = Some c"
    by (simp_all add: ladderWellFormed_def levelWellFormed_def)
  from wf front have once: "c \<notin> set others"
    by (simp add: ladderWellFormed_def ladderRefs_Cons)
  have removed: "PriceLevel_removeOrder h' (orderId (h c)) lvl =
          lvl\<lparr>totalQuantity := totalQuantity lvl - (quantity (h' c) - filledQuantity (h' c)),
              levelOrders := others,
              levelOrderMap := (levelOrderMap lvl)(orderId (h c) := None)\<rparr>"
    using c front once by (simp add: PriceLevel_removeOrder_def eraseNode_front)
  show ?thesis
    using c removed eraseLevel_front [OF keys] updateLevel_front [OF keys]
    by (simp add: removeFromLadder_def fields isEmpty_def)
qed


lemma ladderWellFormed_heap:
  assumes "sameOrderData h h'"
  shows "ladderWellFormed h' book sd levels = ladderWellFormed h book sd levels"
  by (simp add: ladderWellFormed_def levelWellFormed_def sameOrderData_fields [OF assms])

lemma bookWellFormed_heap:
  "sameOrderData h h' \<Longrightarrow> bookWellFormed h' book = bookWellFormed h book"
  by (simp add: bookWellFormed_def ladderWellFormed_heap)

lemma ladderWellFormed_book:
  assumes "bookOrderMap book' = bookOrderMap book"
  shows "ladderWellFormed h book' sd levels = ladderWellFormed h book sd levels"
  by (simp add: ladderWellFormed_def levelWellFormed_def assms)

lemma ladderWellFormed_tail:
  "ladderWellFormed h book sd ((p, lvl) # rest) \<Longrightarrow> ladderWellFormed h book sd rest"
  by (simp add: ladderWellFormed_def ladderRefs_Cons)

text \<open>Dropping an order id that no order of the ladder has.\<close>

lemma ladderWellFormed_drop:
  assumes wf: "ladderWellFormed h book sd levels"
    and map: "bookOrderMap book' = (bookOrderMap book)(oid := None)"
    and other: "\<forall>c \<in> set (ladderRefs levels). orderId (h c) \<noteq> oid"
  shows "ladderWellFormed h book' sd levels"
proof -
  have "levelWellFormed h book' sd p lvl" if "(p, lvl) \<in> set levels" for p lvl
  proof -
    from that have sub: "set (levelOrders lvl) \<subseteq> set (ladderRefs levels)"
      by (auto simp: ladderRefs_def)
    from wf that have "levelWellFormed h book sd p lvl"
      by (auto simp: ladderWellFormed_def)
    with sub other show ?thesis
      by (auto simp: levelWellFormed_def map)
  qed
  with wf show ?thesis by (auto simp: ladderWellFormed_def)
qed

lemma ladderWellFormed_front_removed:
  assumes wf: "ladderWellFormed h book sd ((p, lvl) # rest)"
    and front: "levelOrders lvl = c # others"
    and map: "bookOrderMap book' = (bookOrderMap book)(orderId (h c) := None)"
    and lvl': "levelOrders lvl' = others"
              "levelOrderMap lvl' = (levelOrderMap lvl)(orderId (h c) := None)"
  shows "ladderWellFormed h book' sd (if others = [] then rest else (p, lvl') # rest)"
proof -
  from wf front have c_new: "c \<notin> set others" "c \<notin> set (ladderRefs rest)"
    by (auto simp: ladderWellFormed_def ladderRefs_Cons)
  have c_in: "c \<in> set (ladderRefs ((p, lvl) # rest))"
    using front by (simp add: ladderRefs_Cons)
  have ids: "orderId (h c') \<noteq> orderId (h c)"
    if "c' \<in> set others \<or> c' \<in> set (ladderRefs rest)" for c'
  proof
    assume eq: "orderId (h c') = orderId (h c)"
    from that front have "c' \<in> set (ladderRefs ((p, lvl) # rest))"
      by (auto simp: ladderRefs_Cons)
    from ladderWellFormed_ids [OF wf wf c_in this eq] have "c' = c" .
    with that c_new show False by auto
  qed
  have "\<forall>c' \<in> set (ladderRefs rest). orderId (h c') \<noteq> orderId (h c)"
    using ids by blast
  with ladderWellFormed_tail [OF wf] map have rest: "ladderWellFormed h book' sd rest"
    by (rule ladderWellFormed_drop)
  show ?thesis
  proof (cases "others = []")
    case True
    with rest show ?thesis by simp
  next
    case False
    from wf have old: "levelWellFormed h book sd p lvl"
      by (simp add: ladderWellFormed_def)
    have "price (h c') = p \<and> side (h c') = sd
          \<and> bookOrderMap book' (orderId (h c')) = Some c'
          \<and> levelOrderMap lvl' (orderId (h c')) = Some c'" if "c' \<in> set others" for c'
    proof -
      from that front have "c' \<in> set (levelOrders lvl)" by simp
      with old have "price (h c') = p \<and> side (h c') = sd
          \<and> bookOrderMap book (orderId (h c')) = Some c'
          \<and> levelOrderMap lvl (orderId (h c')) = Some c'"
        by (simp add: levelWellFormed_def)
      moreover from that have "orderId (h c') \<noteq> orderId (h c)" by (simp add: ids)
      ultimately show ?thesis by (simp add: map lvl')
    qed
    with False have new: "levelWellFormed h book' sd p lvl'"
      by (simp add: levelWellFormed_def lvl')
    from wf have "p \<notin> fst ` set rest"
      by (simp add: ladderWellFormed_def)
    moreover from wf front have "distinct (others @ ladderRefs rest)"
      by (simp add: ladderWellFormed_def ladderRefs_Cons)
    moreover from rest have "distinct (map fst rest)"
      and "\<forall>(q, m) \<in> set rest. levelWellFormed h book' sd q m"
      by (simp_all add: ladderWellFormed_def)
    ultimately have "ladderWellFormed h book' sd ((p, lvl') # rest)"
      using new by (simp add: ladderWellFormed_def ladderRefs_Cons lvl')
    with False show ?thesis by simp
  qed
qed


lemma bestAsk_front:
  assumes "getBestAskOrder book = Some c"
  obtains p lvl rest others where "askLevels book = (p, lvl) # rest" and "levelOrders lvl = c # others"
  using assms
  by (auto simp: getBestAskOrder_def getFirstOrder_def split: list.splits)

lemma bestBid_front:
  assumes "getBestBidOrder book = Some c"
  obtains p lvl rest others where "bidLevels book = (p, lvl) # rest" and "levelOrders lvl = c # others"
  using assms
  by (auto simp: getBestBidOrder_def getFirstOrder_def split: list.splits)

lemma ladderRefs_other_ids:
  assumes "ladderWellFormed h book sd levels" and "ladderWellFormed h book sd' levels'"
    and "c \<in> set (ladderRefs levels)" and "sd' \<noteq> sd"
  shows "\<forall>c' \<in> set (ladderRefs levels'). orderId (h c') \<noteq> orderId (h c)"
proof
  fix c'
  assume c': "c' \<in> set (ladderRefs levels')"
  show "orderId (h c') \<noteq> orderId (h c)"
  proof
    assume "orderId (h c') = orderId (h c)"
    from ladderWellFormed_ids [OF assms(1) assms(2) assms(3) c' this] have "c' = c" .
    with ladderWellFormed_refs [OF assms(1) assms(3)] ladderWellFormed_refs [OF assms(2) c'] assms(4)
    show False by simp
  qed
qed

text \<open>
  Removing the order at the front of the best ask level, as the matching loop does when
  that order is filled: the book stays well formed and the ask side loses one order.
\<close>

lemma removeOrder_bestAsk:
  assumes wf: "bookWellFormed h book" and best: "getBestAskOrder book = Some c"
    and same: "sameOrderData h h'"
  shows "bookWellFormed h' (snd (OrderBook_removeOrder h' (orderId (h' c)) (side (h' c)) book))
       \<and> Suc (length (bookRefs (snd (OrderBook_removeOrder h' (orderId (h' c)) (side (h' c)) book))))
           = length (bookRefs book)"
proof -
  note fields = sameOrderData_fields [OF same]
  from best obtain p lvl rest others
    where asks: "askLevels book = (p, lvl) # rest" and front: "levelOrders lvl = c # others"
    by (rule bestAsk_front)
  from wf have wa: "ladderWellFormed h book SELL ((p, lvl) # rest)"
    and wb: "ladderWellFormed h book BUY (bidLevels book)"
    by (simp_all add: bookWellFormed_def asks)
  have c_in: "c \<in> set (ladderRefs ((p, lvl) # rest))"
    using front by (simp add: ladderRefs_Cons)
  from ladderWellFormed_refs [OF wa c_in]
  have c: "side (h c) = SELL" "bookOrderMap book (orderId (h c)) = Some c" by simp_all
  let ?lvl' = "lvl\<lparr>totalQuantity := totalQuantity lvl - (quantity (h' c) - filledQuantity (h' c)),
                    levelOrders := others,
                    levelOrderMap := (levelOrderMap lvl)(orderId (h c) := None)\<rparr>"
  let ?asks' = "if others = [] then rest else (p, ?lvl') # rest"
  let ?book' = "book\<lparr>askLevels := ?asks', bookOrderMap := (bookOrderMap book)(orderId (h c) := None)\<rparr>"
  have result: "snd (OrderBook_removeOrder h' (orderId (h' c)) (side (h' c)) book) = ?book'"
    using c removeFromLadder_front [OF wa front same]
    by (simp add: OrderBook_removeOrder_def Let_def fields asks)
  have map: "bookOrderMap ?book' = (bookOrderMap book)(orderId (h c) := None)" by simp
  have wa': "ladderWellFormed h ?book' SELL ?asks'"
    using wa front map by (rule ladderWellFormed_front_removed) simp_all
  have "\<forall>c' \<in> set (ladderRefs (bidLevels book)). orderId (h c') \<noteq> orderId (h c)"
    using wa wb c_in by (rule ladderRefs_other_ids) simp
  with wb map have wb': "ladderWellFormed h ?book' BUY (bidLevels book)"
    by (rule ladderWellFormed_drop)
  have "bookWellFormed h ?book'"
    using wa' wb' by (simp add: bookWellFormed_def)
  then have "bookWellFormed h' ?book'"
    by (simp add: bookWellFormed_heap [OF same])
  moreover have "Suc (length (bookRefs ?book')) = length (bookRefs book)"
    by (simp add: bookRefs_def asks ladderRefs_Cons front)
  ultimately show ?thesis by (simp only: result) 
qed

lemma removeOrder_bestBid:
  assumes wf: "bookWellFormed h book" and best: "getBestBidOrder book = Some c"
    and same: "sameOrderData h h'"
  shows "bookWellFormed h' (snd (OrderBook_removeOrder h' (orderId (h' c)) (side (h' c)) book))
       \<and> Suc (length (bookRefs (snd (OrderBook_removeOrder h' (orderId (h' c)) (side (h' c)) book))))
           = length (bookRefs book)"
proof -
  note fields = sameOrderData_fields [OF same]
  from best obtain p lvl rest others
    where bids: "bidLevels book = (p, lvl) # rest" and front: "levelOrders lvl = c # others"
    by (rule bestBid_front)
  from wf have wb: "ladderWellFormed h book BUY ((p, lvl) # rest)"
    and wa: "ladderWellFormed h book SELL (askLevels book)"
    by (simp_all add: bookWellFormed_def bids)
  have c_in: "c \<in> set (ladderRefs ((p, lvl) # rest))"
    using front by (simp add: ladderRefs_Cons)
  from ladderWellFormed_refs [OF wb c_in]
  have c: "side (h c) = BUY" "bookOrderMap book (orderId (h c)) = Some c" by simp_all
  let ?lvl' = "lvl\<lparr>totalQuantity := totalQuantity lvl - (quantity (h' c) - filledQuantity (h' c)),
                    levelOrders := others,
                    levelOrderMap := (levelOrderMap lvl)(orderId (h c) := None)\<rparr>"
  let ?bids' = "if others = [] then rest else (p, ?lvl') # rest"
  let ?book' = "book\<lparr>bidLevels := ?bids', bookOrderMap := (bookOrderMap book)(orderId (h c) := None)\<rparr>"
  have result: "snd (OrderBook_removeOrder h' (orderId (h' c)) (side (h' c)) book) = ?book'"
    using c removeFromLadder_front [OF wb front same]
    by (simp add: OrderBook_removeOrder_def Let_def fields bids)
  have map: "bookOrderMap ?book' = (bookOrderMap book)(orderId (h c) := None)" by simp
  have wb': "ladderWellFormed h ?book' BUY ?bids'"
    using wb front map by (rule ladderWellFormed_front_removed) simp_all
  have "\<forall>c' \<in> set (ladderRefs (askLevels book)). orderId (h c') \<noteq> orderId (h c)"
    using wb wa c_in by (rule ladderRefs_other_ids) simp
  with wa map have wa': "ladderWellFormed h ?book' SELL (askLevels book)"
    by (rule ladderWellFormed_drop)
  have "bookWellFormed h ?book'"
    using wa' wb' by (simp add: bookWellFormed_def)
  then have "bookWellFormed h' ?book'"
    by (simp add: bookWellFormed_heap [OF same])
  moreover have "Suc (length (bookRefs ?book')) = length (bookRefs book)"
    by (simp add: bookRefs_def bids ladderRefs_Cons front)
  ultimately show ?thesis by (simp only: result)
qed


lemma updateLastTrade_fields:
  "askLevels (updateLastTrade p q book) = askLevels book"
  "bidLevels (updateLastTrade p q book) = bidLevels book"
  "bookOrderMap (updateLastTrade p q book) = bookOrderMap book"
  by (simp_all add: updateLastTrade_def)

lemma executeTrade_book_fields:
  "askLevels (orderBooks (snd (executeTrade b sl p q s)) bk) = askLevels (orderBooks s bk)"
  "bidLevels (orderBooks (snd (executeTrade b sl p q s)) bk) = bidLevels (orderBooks s bk)"
  "bookOrderMap (orderBooks (snd (executeTrade b sl p q s)) bk) = bookOrderMap (orderBooks s bk)"
  by (simp_all add: executeTrade_books updateLastTrade_fields)

lemma bookWellFormed_fields:
  assumes "askLevels book' = askLevels book" and "bidLevels book' = bidLevels book"
    and "bookOrderMap book' = bookOrderMap book"
  shows "bookWellFormed h book' = bookWellFormed h book"
  using assms by (simp add: bookWellFormed_def ladderWellFormed_book [of book' book])

text \<open>The state a fill leaves, when the counter order is not the incoming order itself.\<close>

lemma fill_state:
  assumes f: "fill r c bk s = (t, s')" and ne: "c \<noteq> r"
  shows "filledQuantity (heap s' r)
           = filledQuantity (heap s r)
             + min (quantity (heap s r) - filledQuantity (heap s r))
                   (quantity (heap s c) - filledQuantity (heap s c))"
    and "orderBooks s' bk =
           (if quantity (heap s c)
                 \<le> filledQuantity (heap s c)
                   + min (quantity (heap s r) - filledQuantity (heap s r))
                         (quantity (heap s c) - filledQuantity (heap s c))
            then snd (OrderBook_removeOrder (heap s') (orderId (heap s' c)) (side (heap s' c))
                        (orderBooks (snd (executeTrade (if side (heap s r) = BUY then r else c)
                                            (if side (heap s r) = SELL then r else c) (price (heap s c))
                                            (min (quantity (heap s r) - filledQuantity (heap s r))
                                                 (quantity (heap s c) - filledQuantity (heap s c))) s)) bk))
            else orderBooks (snd (executeTrade (if side (heap s r) = BUY then r else c)
                                    (if side (heap s r) = SELL then r else c) (price (heap s c))
                                    (min (quantity (heap s r) - filledQuantity (heap s r))
                                         (quantity (heap s c) - filledQuantity (heap s c))) s)) bk)"
proof -
  let ?m = "min (quantity (heap s r) - filledQuantity (heap s r))
                (quantity (heap s c) - filledQuantity (heap s c))"
  let ?x = "executeTrade (if side (heap s r) = BUY then r else c)
              (if side (heap s r) = SELL then r else c) (price (heap s c)) ?m s"
  obtain t1 s1 where x: "?x = (t1, s1)" by (cases ?x)
  then have h1: "heap s1 = heap s"
    using executeTrade_heap [of "if side (heap s r) = BUY then r else c"
            "if side (heap s r) = SELL then r else c" "price (heap s c)" ?m s]
    by simp
  from f x h1 ne show "filledQuantity (heap s' r) = filledQuantity (heap s r) + ?m"
    by (auto simp: fill_def Let_def heap_defs split: if_splits)
  from f x h1 ne show "orderBooks s' bk =
           (if quantity (heap s c) \<le> filledQuantity (heap s c) + ?m
            then snd (OrderBook_removeOrder (heap s') (orderId (heap s' c)) (side (heap s' c))
                        (orderBooks (snd ?x) bk))
            else orderBooks (snd ?x) bk)"
    by (auto simp: fill_def Let_def heap_defs split: if_splits)
qed

lemma word_min_remaining:
  fixes f q f' q' :: "64 word"
  assumes "\<not> q' \<le> f' + min (q - f) (q' - f')"
  shows "f + min (q - f) (q' - f') = q"
proof -
  have "min (q - f) (q' - f') \<noteq> q' - f'"
  proof
    assume "min (q - f) (q' - f') = q' - f'"
    with assms show False by simp
  qed
  then have "min (q - f) (q' - f') = q - f"
    by (simp add: min_def split: if_splits)
  then show ?thesis by simp
qed

text \<open>
  One fill against the best order of a well-formed book that does not hold the incoming
  order: the book stays well formed, and either the incoming order is filled or the
  book has lost an order.
\<close>

lemma fill_progress:
  assumes f: "fill r c bk s = (t, s')"
    and wf: "bookWellFormed (heap s) (orderBooks s bk)"
    and r: "r \<notin> set (bookRefs (orderBooks s bk))"
    and best: "getBestAskOrder (orderBooks s bk) = Some c \<or> getBestBidOrder (orderBooks s bk) = Some c"
  shows "bookWellFormed (heap s') (orderBooks s' bk)
       \<and> r \<notin> set (bookRefs (orderBooks s' bk))
       \<and> (filledQuantity (heap s' r) < quantity (heap s' r) \<longrightarrow>
             length (bookRefs (orderBooks s' bk)) < length (bookRefs (orderBooks s bk)))"
proof -
  let ?m = "min (quantity (heap s r) - filledQuantity (heap s r))
                (quantity (heap s c) - filledQuantity (heap s c))"
  let ?b1 = "orderBooks (snd (executeTrade (if side (heap s r) = BUY then r else c)
                            (if side (heap s r) = SELL then r else c) (price (heap s c)) ?m s)) bk"
  have later: "afterFills s s'" using f by (rule fill_afterFills)
  then have same: "sameOrderData (heap s) (heap s')" by (simp add: afterFills_def)
  note fields = sameOrderData_fields [OF same]
  from best have "c \<in> set (bookRefs (orderBooks s bk))"
    using bestAsk_resting bestBid_resting by (auto simp: bookRefs_def)
  with r have ne: "c \<noteq> r" by auto
  note st = fill_state [OF f ne]
  have b1: "askLevels ?b1 = askLevels (orderBooks s bk)" "bidLevels ?b1 = bidLevels (orderBooks s bk)"
    "bookOrderMap ?b1 = bookOrderMap (orderBooks s bk)"
    by (simp_all add: executeTrade_book_fields)
  have wf1: "bookWellFormed (heap s) ?b1"
    using wf bookWellFormed_fields [OF b1] by simp
  have refs1: "bookRefs ?b1 = bookRefs (orderBooks s bk)"
    by (simp add: bookRefs_def b1)
  have best1: "getBestAskOrder ?b1 = Some c \<or> getBestBidOrder ?b1 = Some c"
    using best by (simp add: getBestAskOrder_def getBestBidOrder_def b1)
  have not_in: "r \<notin> set (bookRefs (orderBooks s' bk))"
    using r afterFills_bookRefs [OF later, of bk] by auto
  show ?thesis
  proof (cases "quantity (heap s c) \<le> filledQuantity (heap s c) + ?m")
    case True
    then have book: "orderBooks s' bk =
        snd (OrderBook_removeOrder (heap s') (orderId (heap s' c)) (side (heap s' c)) ?b1)"
      using st(2) by simp
    from best1 have "bookWellFormed (heap s') (orderBooks s' bk)
        \<and> Suc (length (bookRefs (orderBooks s' bk))) = length (bookRefs ?b1)"
    proof
      assume "getBestAskOrder ?b1 = Some c"
      from removeOrder_bestAsk [OF wf1 this same] show ?thesis by (simp only: book)
    next
      assume "getBestBidOrder ?b1 = Some c"
      from removeOrder_bestBid [OF wf1 this same] show ?thesis by (simp only: book)
    qed
    with not_in refs1 show ?thesis by simp
  next
    case False
    then have book: "orderBooks s' bk = ?b1" using st(2) by simp
    from False have "filledQuantity (heap s r) + ?m = quantity (heap s r)"
      by (rule word_min_remaining)
    then have "filledQuantity (heap s' r) = quantity (heap s' r)"
      using st(1) by (simp add: fields)
    moreover have "bookWellFormed (heap s') (orderBooks s' bk)"
      using wf1 by (simp add: book bookWellFormed_heap [OF same])
    ultimately show ?thesis using not_in by simp
  qed
qed


text \<open>
  On a well-formed book that does not hold the incoming order, the matching loops leave
  with fuel for one round per resting order and two more.
\<close>

lemma matchLimitLoop_returns:
  assumes "bookWellFormed (heap s) (orderBooks s bk)"
    and "r \<notin> set (bookRefs (orderBooks s bk))"
    and "length (bookRefs (orderBooks s bk)) + 2 \<le> n
         \<or> (\<not> filledQuantity (heap s r) < quantity (heap s r) \<and> 0 < n)"
  shows "\<exists>x. matchLimitLoop n r bk ts s = Some x"
  using assms
proof (induction n arbitrary: s ts)
  case 0
  then show ?case by simp
next
  case (Suc n)
  show ?case
  proof (cases "filledQuantity (heap s r) < quantity (heap s r)")
    case False
    then show ?thesis by simp
  next
    case True
    with Suc.prems(3) have fuel: "length (bookRefs (orderBooks s bk)) + 2 \<le> Suc n" by simp
    have next_round: "\<exists>x. matchLimitLoop n r bk (ts @ [t]) s' = Some x"
      if f: "fill r c bk s = (t, s')"
        and best: "getBestAskOrder (orderBooks s bk) = Some c \<or> getBestBidOrder (orderBooks s bk) = Some c"
      for c t s'
    proof -
      from fill_progress [OF f Suc.prems(1) Suc.prems(2) best]
      have wf': "bookWellFormed (heap s') (orderBooks s' bk)"
        and r': "r \<notin> set (bookRefs (orderBooks s' bk))"
        and less: "filledQuantity (heap s' r) < quantity (heap s' r) \<longrightarrow>
             length (bookRefs (orderBooks s' bk)) < length (bookRefs (orderBooks s bk))"
        by simp_all
      from less fuel have "length (bookRefs (orderBooks s' bk)) + 2 \<le> n
         \<or> (\<not> filledQuantity (heap s' r) < quantity (heap s' r) \<and> 0 < n)"
        by (cases "filledQuantity (heap s' r) < quantity (heap s' r)") auto
      with wf' r' show ?thesis by (rule Suc.IH)
    qed
    show ?thesis
    proof (cases "side (heap s r) = BUY")
      case buy: True
      show ?thesis
      proof (cases "getBestAskOrder (orderBooks s bk)")
        case None
        with True buy show ?thesis by simp
      next
        case (Some c)
        obtain t s' where f: "fill r c bk s = (t, s')" by (cases "fill r c bk s")
        from next_round [OF f] Some
        have "\<exists>x. matchLimitLoop n r bk (ts @ [t]) s' = Some x" by simp
        with True buy Some f show ?thesis by simp
      qed
    next
      case sell: False
      show ?thesis
      proof (cases "getBestBidOrder (orderBooks s bk)")
        case None
        with True sell show ?thesis by simp
      next
        case (Some c)
        obtain t s' where f: "fill r c bk s = (t, s')" by (cases "fill r c bk s")
        from next_round [OF f] Some
        have "\<exists>x. matchLimitLoop n r bk (ts @ [t]) s' = Some x" by simp
        with True sell Some f show ?thesis by simp
      qed
    qed
  qed
qed

lemma matchMarketLoop_returns:
  assumes "bookWellFormed (heap s) (orderBooks s bk)"
    and "r \<notin> set (bookRefs (orderBooks s bk))"
    and "length (bookRefs (orderBooks s bk)) + 2 \<le> n
         \<or> (\<not> filledQuantity (heap s r) < quantity (heap s r) \<and> 0 < n)"
  shows "\<exists>x. matchMarketLoop n r bk ts s = Some x"
  using assms
proof (induction n arbitrary: s ts)
  case 0
  then show ?case by simp
next
  case (Suc n)
  show ?case
  proof (cases "filledQuantity (heap s r) < quantity (heap s r)")
    case False
    then show ?thesis by simp
  next
    case True
    with Suc.prems(3) have fuel: "length (bookRefs (orderBooks s bk)) + 2 \<le> Suc n" by simp
    let ?best = "if side (heap s r) = BUY then getBestAskOrder (orderBooks s bk)
                 else getBestBidOrder (orderBooks s bk)"
    show ?thesis
    proof (cases ?best)
      case None
      with True show ?thesis by simp
    next
      case (Some c)
      then have best: "getBestAskOrder (orderBooks s bk) = Some c
                       \<or> getBestBidOrder (orderBooks s bk) = Some c"
        by (simp split: if_splits)
      obtain t s' where f: "fill r c bk s = (t, s')" by (cases "fill r c bk s")
      from fill_progress [OF f Suc.prems(1) Suc.prems(2) best]
      have wf': "bookWellFormed (heap s') (orderBooks s' bk)"
        and r': "r \<notin> set (bookRefs (orderBooks s' bk))"
        and less: "filledQuantity (heap s' r) < quantity (heap s' r) \<longrightarrow>
             length (bookRefs (orderBooks s' bk)) < length (bookRefs (orderBooks s bk))"
        by simp_all
      from less fuel have "length (bookRefs (orderBooks s' bk)) + 2 \<le> n
         \<or> (\<not> filledQuantity (heap s' r) < quantity (heap s' r) \<and> 0 < n)"
        by (cases "filledQuantity (heap s' r) < quantity (heap s' r)") auto
      with wf' r' have "\<exists>x. matchMarketLoop n r bk (ts @ [t]) s' = Some x" by (rule Suc.IH)
      with True Some f show ?thesis by simp
    qed
  qed
qed

lemma processOrder_returns:
  assumes wf: "bookWellFormed (heap s) (orderBooks s (symbol (heap s r)))"
    and r: "r \<notin> set (bookRefs (orderBooks s (symbol (heap s r))))"
    and fuel: "length (bookRefs (orderBooks s (symbol (heap s r)))) + 2 \<le> fuel"
  shows "\<exists>x. processOrder fuel r s = Some x"
proof (cases "orderType (heap s r) = LIMIT")
  case True
  from fuel have "length (bookRefs (orderBooks s (symbol (heap s r)))) + 2 \<le> fuel
         \<or> (\<not> filledQuantity (heap s r) < quantity (heap s r) \<and> 0 < fuel)" by simp
  with wf r obtain x where "matchLimitLoop fuel r (symbol (heap s r)) [] s = Some x"
    using matchLimitLoop_returns by blast
  then obtain y where "matchLimitOrder fuel r (symbol (heap s r)) s = Some y"
    by (cases x) (simp add: matchLimitOrder_def)
  with True show ?thesis
    by (cases y) (simp add: processOrder_def Let_def split: prod.splits)
next
  case False
  from fuel have "length (bookRefs (orderBooks s (symbol (heap s r)))) + 2 \<le> fuel
         \<or> (\<not> filledQuantity (heap s r) < quantity (heap s r) \<and> 0 < fuel)" by simp
  with wf r obtain x where "matchMarketLoop fuel r (symbol (heap s r)) [] s = Some x"
    using matchMarketLoop_returns by blast
  then obtain y where "matchMarketOrder fuel r (symbol (heap s r)) s = Some y"
    by (cases x) (simp add: matchMarketOrder_def)
  with False show ?thesis
    by (cases y) (simp add: processOrder_def Let_def split: prod.splits)
qed


lemma matchLimitOrder_returns:
  assumes "bookWellFormed (heap s) (orderBooks s bk)"
    and "r \<notin> set (bookRefs (orderBooks s bk))"
    and "length (bookRefs (orderBooks s bk)) + 2 \<le> fuel"
  shows "matchLimitOrder fuel r bk s \<noteq> None"
proof -
  from assms(3) have "length (bookRefs (orderBooks s bk)) + 2 \<le> fuel
         \<or> (\<not> filledQuantity (heap s r) < quantity (heap s r) \<and> 0 < fuel)" by simp
  with assms(1,2) obtain x where "matchLimitLoop fuel r bk [] s = Some x"
    using matchLimitLoop_returns by blast
  then show ?thesis by (cases x) (simp add: matchLimitOrder_def)
qed

lemma matchMarketOrder_returns:
  assumes "bookWellFormed (heap s) (orderBooks s bk)"
    and "r \<notin> set (bookRefs (orderBooks s bk))"
    and "length (bookRefs (orderBooks s bk)) + 2 \<le> fuel"
  shows "matchMarketOrder fuel r bk s \<noteq> None"
proof -
  from assms(3) have "length (bookRefs (orderBooks s bk)) + 2 \<le> fuel
         \<or> (\<not> filledQuantity (heap s r) < quantity (heap s r) \<and> 0 < fuel)" by simp
  with assms(1,2) obtain x where "matchMarketLoop fuel r bk [] s = Some x"
    using matchMarketLoop_returns by blast
  then show ?thesis by (cases x) (simp add: matchMarketOrder_def)
qed

section \<open>Filled quantity stays within quantity\<close>

lemma word_add_within:
  fixes f q m :: "64 word"
  assumes "f \<le> q" and "m \<le> q - f"
  shows "f + m \<le> q"
proof -
  have "f \<le> f + (q - f)" using assms(1) by simp
  with assms(2) have "f + m \<le> f + (q - f)" by (rule word_plus_mono_right)
  then show ?thesis by simp
qed

lemma fill_filled_within_quantity:
  assumes f: "fill r c bk s = (t, s')" and ne: "c \<noteq> r"
    and r: "filledQuantity (heap s r) \<le> quantity (heap s r)"
    and c: "filledQuantity (heap s c) \<le> quantity (heap s c)"
  shows "filledQuantity (heap s' r) \<le> quantity (heap s' r)
       \<and> filledQuantity (heap s' c) \<le> quantity (heap s' c)
       \<and> (\<forall>x. x \<noteq> r \<and> x \<noteq> c \<longrightarrow> heap s' x = heap s x)"
proof -
  let ?m = "min (quantity (heap s r) - filledQuantity (heap s r))
                (quantity (heap s c) - filledQuantity (heap s c))"
  have mr: "filledQuantity (heap s r) + ?m \<le> quantity (heap s r)"
    using r by (intro word_add_within) simp_all
  have mc: "filledQuantity (heap s c) + ?m \<le> quantity (heap s c)"
    using c by (intro word_add_within) simp_all
  from f ne mr mc show ?thesis
    by (cases "executeTrade (if side (heap s r) = BUY then r else c)
               (if side (heap s r) = SELL then r else c) (price (heap s c)) ?m s")
       (auto simp: fill_def Let_def heap_defs executeTrade_def split: if_splits)
qed


lemma fill_keeps_within_quantity:
  assumes f: "fill r c bk s = (t, s')" and ne: "c \<noteq> r"
    and all: "\<forall>x. filledQuantity (heap s x) \<le> quantity (heap s x)"
  shows "\<forall>x. filledQuantity (heap s' x) \<le> quantity (heap s' x)"
proof
  fix x
  from all have "filledQuantity (heap s r) \<le> quantity (heap s r)"
    and "filledQuantity (heap s c) \<le> quantity (heap s c)" by simp_all
  from fill_filled_within_quantity [OF f ne this] all
  show "filledQuantity (heap s' x) \<le> quantity (heap s' x)"
    by (cases "x = r \<or> x = c") auto
qed

lemma matchLimitLoop_within_quantity:
  assumes "matchLimitLoop n r bk ts s = Some (ts', s')"
    and "r \<notin> set (bookRefs (orderBooks s bk))"
    and "\<forall>x. filledQuantity (heap s x) \<le> quantity (heap s x)"
  shows "\<forall>x. filledQuantity (heap s' x) \<le> quantity (heap s' x)"
  using assms
proof (induction n arbitrary: ts s)
  case 0
  then show ?case by simp
next
  case (Suc n)
  from Suc.prems(1) show ?case
  proof (cases rule: matchLimitLoop_step)
    case stop
    with Suc.prems(3) show ?thesis by simp
  next
    case (step c t s1)
    from step(1) have "c \<in> set (bookRefs (orderBooks s bk))"
      using bestAsk_resting bestBid_resting by (auto simp: bookRefs_def split: if_splits)
    with Suc.prems(2) have ne: "c \<noteq> r" by auto
    have within: "\<forall>x. filledQuantity (heap s1 x) \<le> quantity (heap s1 x)"
      using step(4) ne Suc.prems(3) by (rule fill_keeps_within_quantity)
    have "r \<notin> set (bookRefs (orderBooks s1 bk))"
      using Suc.prems(2) afterFills_bookRefs [OF fill_afterFills [OF step(4)], of bk] by auto
    with step(5) show ?thesis using within by (rule Suc.IH)
  qed
qed

lemma matchMarketLoop_within_quantity:
  assumes "matchMarketLoop n r bk ts s = Some (ts', s')"
    and "r \<notin> set (bookRefs (orderBooks s bk))"
    and "\<forall>x. filledQuantity (heap s x) \<le> quantity (heap s x)"
  shows "\<forall>x. filledQuantity (heap s' x) \<le> quantity (heap s' x)"
  using assms
proof (induction n arbitrary: ts s)
  case 0
  then show ?case by simp
next
  case (Suc n)
  from Suc.prems(1) show ?case
  proof (cases rule: matchMarketLoop_step)
    case stop
    with Suc.prems(3) show ?thesis by simp
  next
    case (step c t s1)
    from step(1) have "c \<in> set (bookRefs (orderBooks s bk))"
      using bestAsk_resting bestBid_resting by (auto simp: bookRefs_def split: if_splits)
    with Suc.prems(2) have ne: "c \<noteq> r" by auto
    have within: "\<forall>x. filledQuantity (heap s1 x) \<le> quantity (heap s1 x)"
      using step(3) ne Suc.prems(3) by (rule fill_keeps_within_quantity)
    have "r \<notin> set (bookRefs (orderBooks s1 bk))"
      using Suc.prems(2) afterFills_bookRefs [OF fill_afterFills [OF step(3)], of bk] by auto
    with step(4) show ?thesis using within by (rule Suc.IH)
  qed
qed

lemma setStatus_quantities:
  "filledQuantity (heap (setStatus r st s) x) = filledQuantity (heap s x)
   \<and> quantity (heap (setStatus r st s) x) = quantity (heap s x)"
  by (simp add: setStatus_def)

lemma handleIOC_quantities:
  "filledQuantity (heap (snd (handleIOC r ts s)) x) = filledQuantity (heap s x)
   \<and> quantity (heap (snd (handleIOC r ts s)) x) = quantity (heap s x)"
  by (simp add: handleIOC_def Let_def setStatus_def)

lemma handleFOK_heap: "heap (snd (handleFOK r bk s)) = heap s"
  by (simp add: handleFOK_def Let_def)

lemma restOrder_heap: "heap (restOrder r bk s) = heap s"
  by (simp add: restOrder_def Let_def notifyOrderUpdate_def)

lemma notifyOrderUpdate_heap: "heap (notifyOrderUpdate r s) = heap s"
  by (simp add: notifyOrderUpdate_def)

text \<open>What \<open>processOrder\<close> does once the matching loop has returned.\<close>

lemma processOrder_Some:
  assumes "processOrder fuel r s = Some (trades, s')"
  obtains ts s1 where
    "(if orderType (heap s r) = LIMIT then matchLimitOrder fuel r (symbol (heap s r)) s
      else matchMarketOrder fuel r (symbol (heap s r)) s) = Some (ts, s1)"
    and "s' = restOrder r (symbol (heap s r)) (snd (handleIOC r ts s1))
         \<or> s' = notifyOrderUpdate r (setStatus r CANCELLED (snd (handleFOK r (symbol (heap s r)) s1)))
         \<or> s' = restOrder r (symbol (heap s r)) (snd (handleFOK r (symbol (heap s r)) s1))
         \<or> s' = restOrder r (symbol (heap s r)) s1"
proof -
  let ?m = "if orderType (heap s r) = LIMIT then matchLimitOrder fuel r (symbol (heap s r)) s
            else matchMarketOrder fuel r (symbol (heap s r)) s"
  from assms obtain y where y: "?m = Some y"
    by (cases ?m) (simp_all add: processOrder_def Let_def)
  obtain ts s1 where pair: "y = (ts, s1)" by (cases y)
  have "s' = restOrder r (symbol (heap s r)) (snd (handleIOC r ts s1))
         \<or> s' = notifyOrderUpdate r (setStatus r CANCELLED (snd (handleFOK r (symbol (heap s r)) s1)))
         \<or> s' = restOrder r (symbol (heap s r)) (snd (handleFOK r (symbol (heap s r)) s1))
         \<or> s' = restOrder r (symbol (heap s r)) s1"
    using assms y pair
    by (cases "handleFOK r (symbol (heap s r)) s1")
       (simp add: processOrder_def Let_def split: if_splits)
  with y pair show ?thesis by (intro that [of ts s1]) simp_all
qed

text \<open>
  Processing an order that is not in its book keeps the filled quantity of every order
  within its quantity.
\<close>

lemma processOrder_within_quantity:
  assumes run: "processOrder fuel r s = Some (trades, s')"
    and r: "r \<notin> set (bookRefs (orderBooks s (symbol (heap s r))))"
    and all: "\<forall>x. filledQuantity (heap s x) \<le> quantity (heap s x)"
  shows "\<forall>x. filledQuantity (heap s' x) \<le> quantity (heap s' x)"
proof -
  let ?bk = "symbol (heap s r)"
  from run obtain ts s1 where
    m: "(if orderType (heap s r) = LIMIT then matchLimitOrder fuel r ?bk s
         else matchMarketOrder fuel r ?bk s) = Some (ts, s1)"
    and s': "s' = restOrder r ?bk (snd (handleIOC r ts s1))
         \<or> s' = notifyOrderUpdate r (setStatus r CANCELLED (snd (handleFOK r ?bk s1)))
         \<or> s' = restOrder r ?bk (snd (handleFOK r ?bk s1))
         \<or> s' = restOrder r ?bk s1"
    by (rule processOrder_Some)
  have matched: "\<forall>x. filledQuantity (heap s1 x) \<le> quantity (heap s1 x)"
  proof (cases "orderType (heap s r) = LIMIT")
    case True
    with m have "matchLimitOrder fuel r ?bk s = Some (ts, s1)" by simp
    then obtain s0 where loop: "matchLimitLoop fuel r ?bk [] s = Some (ts, s0)"
      and s1: "s1 = (if quantity (heap s0 r) \<le> filledQuantity (heap s0 r) then setStatus r FILLED s0
               else if 0 < filledQuantity (heap s0 r) then setStatus r PARTIALLY_FILLED s0
               else s0)"
      by (rule matchLimitOrder_Some)
    from matchLimitLoop_within_quantity [OF loop r all] show ?thesis
      by (simp add: s1 setStatus_quantities)
  next
    case False
    with m have "matchMarketOrder fuel r ?bk s = Some (ts, s1)" by simp
    then obtain s0 where loop: "matchMarketLoop fuel r ?bk [] s = Some (ts, s0)"
      and s1: "s1 = (if quantity (heap s0 r) \<le> filledQuantity (heap s0 r) then setStatus r FILLED s0
               else if 0 < filledQuantity (heap s0 r) then setStatus r PARTIALLY_FILLED s0
               else setStatus r CANCELLED s0)"
      by (rule matchMarketOrder_Some)
    from matchMarketLoop_within_quantity [OF loop r all] show ?thesis
      by (simp add: s1 setStatus_quantities)
  qed
  have "filledQuantity (heap s' x) = filledQuantity (heap s1 x)
        \<and> quantity (heap s' x) = quantity (heap s1 x)" for x
    using s'
    by (auto simp: restOrder_heap handleIOC_quantities handleFOK_heap notifyOrderUpdate_heap
                   setStatus_quantities)
  with matched show ?thesis by simp
qed

section \<open>Maker prices\<close>

text \<open>
  Claim C5. Every trade that \<open>matchLimitOrder\<close> or \<open>matchMarketOrder\<close> returns for
  an incoming order \<open>r\<close> has as its other party an order that rested on the opposite
  side of the book when matching began, and the trade price is the price of that
  resting order. For a limit order the loop stops at the first resting price beyond the
  limit, so the trade price is at most the limit of an incoming buy and at least the
  limit of an incoming sell; the resting order trades at its own limit price. Both
  functions return when the book is well formed, does not hold the order and the fuel
  covers one round per resting order and two more.
\<close>

theorem fills_execute_at_maker_price:
  "(bookWellFormed (heap s) (orderBooks s bk) \<and> r \<notin> set (bookRefs (orderBooks s bk))
    \<and> length (bookRefs (orderBooks s bk)) + 2 \<le> fuel \<longrightarrow>
      matchLimitOrder fuel r bk s \<noteq> None \<and> matchMarketOrder fuel r bk s \<noteq> None)
   \<and> (matchLimitOrder fuel r bk s = Some (trades, s') \<longrightarrow>
      (\<forall>t \<in> set trades. makerPriced s r bk t \<and> withinLimit (heap s r) t))
   \<and> (matchMarketOrder fuel r bk s = Some (trades, s') \<longrightarrow>
      (\<forall>t \<in> set trades. makerPriced s r bk t))"
proof (intro conjI impI)
  assume "bookWellFormed (heap s) (orderBooks s bk) \<and> r \<notin> set (bookRefs (orderBooks s bk))
    \<and> length (bookRefs (orderBooks s bk)) + 2 \<le> fuel"
  then show "matchLimitOrder fuel r bk s \<noteq> None" and "matchMarketOrder fuel r bk s \<noteq> None"
    by (simp_all add: matchLimitOrder_returns matchMarketOrder_returns)
next
  assume "matchLimitOrder fuel r bk s = Some (trades, s')"
  then obtain s1 where "matchLimitLoop fuel r bk [] s = Some (trades, s1)"
    by (rule matchLimitOrder_Some)
  then show "\<forall>t \<in> set trades. makerPriced s r bk t \<and> withinLimit (heap s r) t"
    using afterFills_refl [of s] by (rule matchLimitLoop_trades) simp
next
  assume "matchMarketOrder fuel r bk s = Some (trades, s')"
  then obtain s1 where "matchMarketLoop fuel r bk [] s = Some (trades, s1)"
    by (rule matchMarketOrder_Some)
  then show "\<forall>t \<in> set trades. makerPriced s r bk t"
    using afterFills_refl [of s] by (rule matchMarketLoop_trades) simp
qed

theorem fills_execute_at_maker_price_witness:
  "map_option fst (matchLimitOrder 10 2 ''X'' crossReady)
     = Some [\<lparr>tradeId = 1, buyOrderId = 2, sellOrderId = 1, buyUserId = 1, sellUserId = 2,
              tradeSymbol = ''X'', tradePrice = 10000, tradeQuantity = 5\<rparr>]
   \<and> makerPriced crossReady 2 ''X''
        \<lparr>tradeId = 1, buyOrderId = 2, sellOrderId = 1, buyUserId = 1, sellUserId = 2,
         tradeSymbol = ''X'', tradePrice = 10000, tradeQuantity = 5\<rparr>
   \<and> withinLimit (heap crossReady 2)
        \<lparr>tradeId = 1, buyOrderId = 2, sellOrderId = 1, buyUserId = 1, sellUserId = 2,
         tradeSymbol = ''X'', tradePrice = 10000, tradeQuantity = 5\<rparr>"
proof -
  let ?t = "\<lparr>tradeId = 1, buyOrderId = 2, sellOrderId = 1, buyUserId = 1, sellUserId = 2,
              tradeSymbol = ''X'', tradePrice = 10000, tradeQuantity = 5\<rparr>"
  have wf: "bookWellFormed (heap crossReady) (orderBooks crossReady ''X'')" by code_simp
  have fresh: "2 \<notin> set (bookRefs (orderBooks crossReady ''X''))" by code_simp
  have fuel: "length (bookRefs (orderBooks crossReady ''X'')) + 2 \<le> 10" by code_simp
  note c5 = fills_execute_at_maker_price [of crossReady "''X''" 2 10]
  from c5 wf fresh fuel have "matchLimitOrder 10 2 ''X'' crossReady \<noteq> None"
    by simp
  then obtain trades s' where m: "matchLimitOrder 10 2 ''X'' crossReady = Some (trades, s')"
    by (cases "matchLimitOrder 10 2 ''X'' crossReady") auto
  have run: "map_option fst (matchLimitOrder 10 2 ''X'' crossReady) = Some [?t]"
    by code_simp
  with m have trades: "trades = [?t]" by simp
  from c5 [of trades s'] m
  have "\<forall>t \<in> set trades. makerPriced crossReady 2 ''X'' t \<and> withinLimit (heap crossReady 2) t"
    by simp
  with trades have "makerPriced crossReady 2 ''X'' ?t \<and> withinLimit (heap crossReady 2) ?t"
    by simp
  with run show ?thesis by simp
qed

section \<open>Immediate-or-cancel\<close>

lemma unlockFunds_covered:
  assumes "getOrCreateBalance u bs = (b, bs1)" and "amount \<le>s lockedBalance b"
  shows "unlockFunds u amount bs =
           (SUCCESS, bs1(u \<mapsto> b\<lparr>lockedBalance := lockedBalance b - amount,
                                 availableBalance := availableBalance b + amount\<rparr>))"
  using assms by (simp add: unlockFunds_def word_sless_alt word_sle_eq)

text \<open>
  For every \<open>LIMIT IOC\<close> order the matching loop returns when the book
  is well formed, does not hold the order and the fuel covers one round per resting
  order and two more. When it has returned, \<open>processOrder\<close> returns the trades of the
  loop and leaves every book as the loop left it: the order is added to no level. If
  the order is not filled, its status is \<open>CANCELLED\<close> when nothing was filled and
  \<open>PARTIALLY_FILLED\<close> otherwise, and for a buy order the ledger is the one
  \<open>unlockFunds\<close> leaves for limit price times unfilled quantity.
  \<open>PARTIALLY_FILLED\<close> is a status the registry cancels: a later \<open>cancelOrder\<close> of the
  order returns \<open>SUCCESS\<close>.
\<close>

lemma ioc_limit_order_never_rests:
  assumes limit: "orderType (heap s r) = LIMIT"
    and ioc: "timeInForce (heap s r) = IOC"
  shows "(bookWellFormed (heap s) (orderBooks s (symbol (heap s r)))
          \<and> r \<notin> set (bookRefs (orderBooks s (symbol (heap s r))))
          \<and> length (bookRefs (orderBooks s (symbol (heap s r)))) + 2 \<le> fuel
          \<longrightarrow> matchLimitOrder fuel r (symbol (heap s r)) s \<noteq> None)
       \<and> (\<forall>trades s1. matchLimitOrder fuel r (symbol (heap s r)) s = Some (trades, s1) \<longrightarrow>
            (\<exists>s2. processOrder fuel r s = Some (trades, s2)
               \<and> orderBooks s2 = orderBooks s1
               \<and> (\<forall>b. r \<notin> set (bookRefs (orderBooks s b)) \<longrightarrow> r \<notin> set (bookRefs (orderBooks s2 b)))
               \<and> filledQuantity (heap s2 r) = filledQuantity (heap s1 r)
               \<and> quantity (heap s2 r) = quantity (heap s r)
               \<and> (filledQuantity (heap s1 r) < quantity (heap s r) \<longrightarrow>
                    status (heap s2 r)
                      = (if filledQuantity (heap s1 r) = 0 then CANCELLED else PARTIALLY_FILLED)
                    \<and> balances s2
                      = (if side (heap s r) = BUY
                         then snd (unlockFunds (userId (heap s r))
                                     (price (heap s r) * (quantity (heap s r) - filledQuantity (heap s1 r)))
                                     (balances s1))
                         else balances s1))
               \<and> (\<forall>oid. orders s oid = Some r \<and> filledQuantity (heap s1 r) \<noteq> 0
                        \<and> filledQuantity (heap s1 r) < quantity (heap s r) \<longrightarrow>
                      fst (OrderService_cancelOrder oid s2) = SUCCESS)))"
proof (intro conjI allI impI)
  assume "bookWellFormed (heap s) (orderBooks s (symbol (heap s r)))
          \<and> r \<notin> set (bookRefs (orderBooks s (symbol (heap s r))))
          \<and> length (bookRefs (orderBooks s (symbol (heap s r)))) + 2 \<le> fuel"
  then show "matchLimitOrder fuel r (symbol (heap s r)) s \<noteq> None"
    by (simp add: matchLimitOrder_returns)
next
  fix trades s1
  assume matched: "matchLimitOrder fuel r (symbol (heap s r)) s = Some (trades, s1)"
  have later: "afterFills s s1" using matched by (rule matchLimitOrder_afterFills)
  then have same: "sameOrderData (heap s) (heap s1)" by (simp add: afterFills_def)
  note fields = sameOrderData_fields [OF same]
  let ?s2 = "snd (handleIOC r trades s1)"
  have not_gfd: "restOrder r (symbol (heap s r)) ?s2 = ?s2"
    using ioc by (simp add: restOrder_def handleIOC_def Let_def heap_defs fields)
  have run: "processOrder fuel r s = Some (trades, ?s2)"
    using limit ioc matched not_gfd by (simp add: processOrder_def Let_def fields)
  have books: "orderBooks ?s2 = orderBooks s1"
    by (simp add: handleIOC_def Let_def heap_defs)
  have "\<forall>b. r \<notin> set (bookRefs (orderBooks s b)) \<longrightarrow> r \<notin> set (bookRefs (orderBooks ?s2 b))"
    using afterFills_bookRefs [OF later] books by auto
  moreover have "filledQuantity (heap ?s2 r) = filledQuantity (heap s1 r)
                 \<and> quantity (heap ?s2 r) = quantity (heap s r)"
    by (simp add: handleIOC_def Let_def heap_defs fields)
  moreover have "filledQuantity (heap s1 r) < quantity (heap s r) \<longrightarrow>
                status (heap ?s2 r)
                  = (if filledQuantity (heap s1 r) = 0 then CANCELLED else PARTIALLY_FILLED)
                \<and> balances ?s2
                  = (if side (heap s r) = BUY
                     then snd (unlockFunds (userId (heap s r))
                                 (price (heap s r) * (quantity (heap s r) - filledQuantity (heap s1 r)))
                                 (balances s1))
                     else balances s1)"
    by (simp add: handleIOC_def Let_def heap_defs fields)
  moreover have "\<forall>oid. orders s oid = Some r \<and> filledQuantity (heap s1 r) \<noteq> 0
                    \<and> filledQuantity (heap s1 r) < quantity (heap s r) \<longrightarrow>
                  fst (OrderService_cancelOrder oid ?s2) = SUCCESS"
  proof (intro allI impI)
    fix oid
    assume a: "orders s oid = Some r \<and> filledQuantity (heap s1 r) \<noteq> 0
                 \<and> filledQuantity (heap s1 r) < quantity (heap s r)"
    have "orders ?s2 = orders s"
      using later by (simp add: handleIOC_def Let_def heap_defs afterFills_def)
    moreover have "status (heap ?s2 r) = PARTIALLY_FILLED"
      using a by (simp add: handleIOC_def Let_def heap_defs fields)
    ultimately show "fst (OrderService_cancelOrder oid ?s2) = SUCCESS"
      using a by (simp add: OrderService_cancelOrder_def Let_def)
  qed
  ultimately show "\<exists>s2. processOrder fuel r s = Some (trades, s2)
               \<and> orderBooks s2 = orderBooks s1
               \<and> (\<forall>b. r \<notin> set (bookRefs (orderBooks s b)) \<longrightarrow> r \<notin> set (bookRefs (orderBooks s2 b)))
               \<and> filledQuantity (heap s2 r) = filledQuantity (heap s1 r)
               \<and> quantity (heap s2 r) = quantity (heap s r)
               \<and> (filledQuantity (heap s1 r) < quantity (heap s r) \<longrightarrow>
                    status (heap s2 r)
                      = (if filledQuantity (heap s1 r) = 0 then CANCELLED else PARTIALLY_FILLED)
                    \<and> balances s2
                      = (if side (heap s r) = BUY
                         then snd (unlockFunds (userId (heap s r))
                                     (price (heap s r) * (quantity (heap s r) - filledQuantity (heap s1 r)))
                                     (balances s1))
                         else balances s1))
               \<and> (\<forall>oid. orders s oid = Some r \<and> filledQuantity (heap s1 r) \<noteq> 0
                        \<and> filledQuantity (heap s1 r) < quantity (heap s r) \<longrightarrow>
                      fst (OrderService_cancelOrder oid s2) = SUCCESS)"
    using run books by blast
qed

text \<open>
  Scenario 3: one trade of 3 units, the order is left \<open>PARTIALLY_FILLED\<close>, nothing of
  it rests and user 1 has no locked funds.
\<close>

lemma ioc_scenario_three:
  "map_option fst (processOrder 10 2 iocReady)
     = Some [\<lparr>tradeId = 1, buyOrderId = 2, sellOrderId = 1, buyUserId = 1, sellUserId = 2,
              tradeSymbol = ''X'', tradePrice = 10000, tradeQuantity = 3\<rparr>]
   \<and> iocShortOutcome
     = Some ([\<lparr>tradeId = 1, buyOrderId = 2, sellOrderId = 1, buyUserId = 1, sellUserId = 2,
               tradeSymbol = ''X'', tradePrice = 10000, tradeQuantity = 3\<rparr>],
             PARTIALLY_FILLED, [],
             Some \<lparr>balanceUserId = 1, availableBalance = 940000, lockedBalance = 0\<rparr>)"
proof -
  let ?t = "\<lparr>tradeId = 1, buyOrderId = 2, sellOrderId = 1, buyUserId = 1, sellUserId = 2,
              tradeSymbol = ''X'', tradePrice = 10000, tradeQuantity = 3\<rparr>"
  have limit: "orderType (heap iocReady 2) = LIMIT" by code_simp
  have ioc: "timeInForce (heap iocReady 2) = IOC" by code_simp
  have smb: "symbol (heap iocReady 2) = ''X''" by code_simp
  have wf: "bookWellFormed (heap iocReady) (orderBooks iocReady ''X'')" by code_simp
  have fresh: "2 \<notin> set (bookRefs (orderBooks iocReady ''X''))" by code_simp
  have fuel: "length (bookRefs (orderBooks iocReady ''X'')) + 2 \<le> 10" by code_simp
  note c6 = ioc_limit_order_never_rests [OF limit ioc, of 10]
  from c6 wf fresh fuel have "matchLimitOrder 10 2 ''X'' iocReady \<noteq> None"
    by (simp add: smb)
  then obtain trades s1 where m: "matchLimitOrder 10 2 ''X'' iocReady = Some (trades, s1)"
    by (cases "matchLimitOrder 10 2 ''X'' iocReady") auto
  have "map_option fst (matchLimitOrder 10 2 ''X'' iocReady) = Some [?t]"
    by code_simp
  with m have trades: "trades = [?t]" by simp
  from c6 m have "\<exists>s2. processOrder 10 2 iocReady = Some (trades, s2)"
    by (simp add: smb) blast
  with trades have run: "map_option fst (processOrder 10 2 iocReady) = Some [?t]"
    by auto
  have "iocShortOutcome
     = Some ([?t], PARTIALLY_FILLED, [],
             Some \<lparr>balanceUserId = 1, availableBalance = 940000, lockedBalance = 0\<rparr>)"
    by code_simp
  with run show ?thesis by simp
qed

text \<open>
  Claim C6. \<open>handleIOC\<close> releases the reservation of the unfilled part and leaves a
  partly filled order \<open>PARTIALLY_FILLED\<close>, a status \<open>cancelOrder\<close> accepts: the
  order is not terminal, and a cancel of it releases the same amount a second time. The
  order of scenario 3 is \<open>PARTIALLY_FILLED\<close> after processing, and cancelling it
  returns \<open>SUCCESS\<close> and changes its status to \<open>CANCELLED\<close>. With the buy order 2 of
  user 1 resting beside it, the immediate-or-cancel order 3 trades 3 units and leaves
  90,000 locked, the reservation of order 2. The cancel of order 3 then returns
  \<open>SUCCESS\<close> and moves another 70,000 from locked to available: 20,000 stay locked,
  while order 2 is still \<open>PENDING\<close> in the book for 10 units at 9000.
\<close>

theorem ioc_residual_released_twice:
  "iocShortThenCancel = Some (PARTIALLY_FILLED, SUCCESS, CANCELLED)
   \<and> iocReleasedTwice
     = Some ([\<lparr>tradeId = 1, buyOrderId = 3, sellOrderId = 1, buyUserId = 1, sellUserId = 2,
               tradeSymbol = ''X'', tradePrice = 10000, tradeQuantity = 3\<rparr>],
             PARTIALLY_FILLED,
             Some \<lparr>balanceUserId = 1, availableBalance = 850000, lockedBalance = 90000\<rparr>,
             SUCCESS, CANCELLED,
             Some \<lparr>balanceUserId = 1, availableBalance = 920000, lockedBalance = 20000\<rparr>,
             \<lparr>orderId = 2, userId = 1, symbol = ''X'', side = BUY, orderType = LIMIT,
              timeInForce = GFD, price = 9000, quantity = 10, filledQuantity = 0,
              status = PENDING\<rparr>,
             [2])"
  by code_simp

section \<open>Cancellation\<close>

text \<open>
  In every state \<open>OrderService::cancelOrder\<close> returns \<open>ORDER_NOT_FOUND\<close> for an id the
  registry does not hold and \<open>SYSTEM_ERROR\<close> for an order that is \<open>FILLED\<close>,
  \<open>CANCELLED\<close> or \<open>REJECTED\<close>, and leaves the whole state, balances included, as it
  was. For an order that is \<open>PENDING\<close> or \<open>PARTIALLY_FILLED\<close> it returns
  \<open>SUCCESS\<close>; the order is then \<open>CANCELLED\<close> for a status query, a second cancel
  returns \<open>SYSTEM_ERROR\<close>, and for a buy order the ledger is the one \<open>unlockFunds\<close>
  leaves for limit price times unfilled quantity, which moves that amount from locked to
  available when the locked balance covers it. \<open>TradingEngine::cancelOrder\<close> returns
  the same code and leaves the same ledger and orders.
\<close>

lemma cancelOrder_outcomes:
  "(orders s oid = None \<longrightarrow> OrderService_cancelOrder oid s = (ORDER_NOT_FOUND, s))
   \<and> (\<forall>r. orders s oid = Some r \<and> status (heap s r) \<in> {FILLED, CANCELLED, REJECTED} \<longrightarrow>
          OrderService_cancelOrder oid s = (SYSTEM_ERROR, s))
   \<and> (\<forall>r. orders s oid = Some r \<and> status (heap s r) \<in> {PENDING, PARTIALLY_FILLED} \<longrightarrow>
          fst (OrderService_cancelOrder oid s) = SUCCESS
          \<and> map_option status (getOrderStatus oid (snd (OrderService_cancelOrder oid s)))
              = Some CANCELLED
          \<and> OrderService_cancelOrder oid (snd (OrderService_cancelOrder oid s))
              = (SYSTEM_ERROR, snd (OrderService_cancelOrder oid s))
          \<and> balances (snd (OrderService_cancelOrder oid s))
              = (if side (heap s r) = BUY
                 then snd (unlockFunds (userId (heap s r))
                             (price (heap s r) * (quantity (heap s r) - filledQuantity (heap s r)))
                             (balances s))
                 else balances s))
   \<and> (\<forall>r b bs1. orders s oid = Some r \<and> status (heap s r) \<in> {PENDING, PARTIALLY_FILLED}
          \<and> side (heap s r) = BUY
          \<and> getOrCreateBalance (userId (heap s r)) (balances s) = (b, bs1)
          \<and> price (heap s r) * (quantity (heap s r) - filledQuantity (heap s r)) \<le>s lockedBalance b \<longrightarrow>
          balances (snd (OrderService_cancelOrder oid s))
            = bs1(userId (heap s r) \<mapsto>
                    b\<lparr>lockedBalance := lockedBalance b
                         - price (heap s r) * (quantity (heap s r) - filledQuantity (heap s r)),
                      availableBalance := availableBalance b
                         + price (heap s r) * (quantity (heap s r) - filledQuantity (heap s r))\<rparr>))
   \<and> fst (TradingEngine_cancelOrder oid s) = fst (OrderService_cancelOrder oid s)
   \<and> balances (snd (TradingEngine_cancelOrder oid s))
       = balances (snd (OrderService_cancelOrder oid s))
   \<and> heap (snd (TradingEngine_cancelOrder oid s)) = heap (snd (OrderService_cancelOrder oid s))"
proof -
  have unknown: "orders s oid = None \<longrightarrow> OrderService_cancelOrder oid s = (ORDER_NOT_FOUND, s)"
    by (simp add: OrderService_cancelOrder_def)
  have terminal:
    "\<forall>r. orders s oid = Some r \<and> status (heap s r) \<in> {FILLED, CANCELLED, REJECTED} \<longrightarrow>
          OrderService_cancelOrder oid s = (SYSTEM_ERROR, s)"
    by (auto simp: OrderService_cancelOrder_def)
  have active:
    "\<forall>r. orders s oid = Some r \<and> status (heap s r) \<in> {PENDING, PARTIALLY_FILLED} \<longrightarrow>
          fst (OrderService_cancelOrder oid s) = SUCCESS
          \<and> map_option status (getOrderStatus oid (snd (OrderService_cancelOrder oid s)))
              = Some CANCELLED
          \<and> OrderService_cancelOrder oid (snd (OrderService_cancelOrder oid s))
              = (SYSTEM_ERROR, snd (OrderService_cancelOrder oid s))
          \<and> balances (snd (OrderService_cancelOrder oid s))
              = (if side (heap s r) = BUY
                 then snd (unlockFunds (userId (heap s r))
                             (price (heap s r) * (quantity (heap s r) - filledQuantity (heap s r)))
                             (balances s))
                 else balances s)"
    by (auto simp: OrderService_cancelOrder_def getOrderStatus_def getOrder_def Let_def setStatus_def)
  have engine:
    "fst (TradingEngine_cancelOrder oid s) = fst (OrderService_cancelOrder oid s)
     \<and> balances (snd (TradingEngine_cancelOrder oid s))
         = balances (snd (OrderService_cancelOrder oid s))
     \<and> heap (snd (TradingEngine_cancelOrder oid s)) = heap (snd (OrderService_cancelOrder oid s))"
    by (cases "OrderService_cancelOrder oid s")
       (auto simp: TradingEngine_cancelOrder_def getOrder_def Let_def notifyOrderUpdate_def
                   OrderService_cancelOrder_def
             split: option.splits)
  have covered:
    "\<forall>r b bs1. orders s oid = Some r \<and> status (heap s r) \<in> {PENDING, PARTIALLY_FILLED}
          \<and> side (heap s r) = BUY
          \<and> getOrCreateBalance (userId (heap s r)) (balances s) = (b, bs1)
          \<and> price (heap s r) * (quantity (heap s r) - filledQuantity (heap s r)) \<le>s lockedBalance b \<longrightarrow>
          balances (snd (OrderService_cancelOrder oid s))
            = bs1(userId (heap s r) \<mapsto>
                    b\<lparr>lockedBalance := lockedBalance b
                         - price (heap s r) * (quantity (heap s r) - filledQuantity (heap s r)),
                      availableBalance := availableBalance b
                         + price (heap s r) * (quantity (heap s r) - filledQuantity (heap s r))\<rparr>)"
    using active by (auto simp: unlockFunds_covered)
  from unknown terminal active covered engine show ?thesis by blast
qed



text \<open>Scenario 6: the resting buy order of user 1 is cancelled and its 50,000 released.\<close>

lemma cancelOrder_resting_buy:
  "OrderService_cancelOrder 7 restingBuy = (ORDER_NOT_FOUND, restingBuy)
   \<and> fst (OrderService_cancelOrder 1 restingBuy) = SUCCESS
   \<and> fst (TradingEngine_cancelOrder 1 restingBuy) = SUCCESS
   \<and> balances (snd (TradingEngine_cancelOrder 1 restingBuy)) 1
       = Some \<lparr>balanceUserId = 1, availableBalance = 1000000, lockedBalance = 0\<rparr>
   \<and> OrderService_cancelOrder 1 (snd (OrderService_cancelOrder 1 restingBuy))
       = (SYSTEM_ERROR, snd (OrderService_cancelOrder 1 restingBuy))"
proof -
  have unknown: "orders restingBuy 7 = None" by code_simp
  have known: "orders restingBuy 1 = Some 1" by code_simp
  have active: "status (heap restingBuy 1) = PENDING" by code_simp
  have buy: "side (heap restingBuy 1) = BUY" by code_simp
  have unlocked:
    "snd (unlockFunds (userId (heap restingBuy 1))
            (price (heap restingBuy 1) * (quantity (heap restingBuy 1) - filledQuantity (heap restingBuy 1)))
            (balances restingBuy)) 1
     = Some \<lparr>balanceUserId = 1, availableBalance = 1000000, lockedBalance = 0\<rparr>"
    by code_simp
  note c7 = cancelOrder_outcomes [of restingBuy]
  from c7 [of 7] unknown
  have a: "OrderService_cancelOrder 7 restingBuy = (ORDER_NOT_FOUND, restingBuy)" by blast
  from c7 [of 1] known active
  have b: "fst (OrderService_cancelOrder 1 restingBuy) = SUCCESS
     \<and> OrderService_cancelOrder 1 (snd (OrderService_cancelOrder 1 restingBuy))
         = (SYSTEM_ERROR, snd (OrderService_cancelOrder 1 restingBuy))
     \<and> balances (snd (OrderService_cancelOrder 1 restingBuy))
         = (if side (heap restingBuy 1) = BUY
            then snd (unlockFunds (userId (heap restingBuy 1))
                        (price (heap restingBuy 1) * (quantity (heap restingBuy 1) - filledQuantity (heap restingBuy 1)))
                        (balances restingBuy))
            else balances restingBuy)"
    by simp
  from c7 [of 1]
  have c: "fst (TradingEngine_cancelOrder 1 restingBuy) = fst (OrderService_cancelOrder 1 restingBuy)
     \<and> balances (snd (TradingEngine_cancelOrder 1 restingBuy))
         = balances (snd (OrderService_cancelOrder 1 restingBuy))"
    by blast
  from a b c buy unlocked show ?thesis by simp
qed

text \<open>
  Claim C7. \<open>cancelOrder\<close> does not look at what \<open>unlockFunds\<close> returns. After the
  two releases for the immediate-or-cancel order 3, user 1 has 20,000 locked and the
  buy order 2 rests, \<open>PENDING\<close>, for 10 units at 9000. Cancelling order 2 returns
  \<open>SUCCESS\<close>, sets the status to \<open>CANCELLED\<close> and takes the order out of the book,
  but \<open>unlockFunds\<close> refuses the 90,000 and the ledger stays as it was: nothing is
  unlocked. A second cancel of order 2 returns \<open>SYSTEM_ERROR\<close>.
\<close>

theorem cancel_succeeds_without_release:
  "cancelAfterRelease
     = Some (\<lparr>orderId = 2, userId = 1, symbol = ''X'', side = BUY, orderType = LIMIT,
              timeInForce = GFD, price = 9000, quantity = 10, filledQuantity = 0,
              status = PENDING\<rparr>,
             Some \<lparr>balanceUserId = 1, availableBalance = 920000, lockedBalance = 20000\<rparr>,
             SUCCESS, CANCELLED,
             Some \<lparr>balanceUserId = 1, availableBalance = 920000, lockedBalance = 20000\<rparr>,
             [], SYSTEM_ERROR)"
  by code_simp

section \<open>Fills and the ledger\<close>

lemma completeTrade_other: "v \<noteq> u \<Longrightarrow> snd (completeTrade u a b bs) v = bs v"
  by (simp add: completeTrade_def getOrCreateBalance_def Let_def split: option.splits)

lemma getOrCreateBalance_entry:
  "bs u = bs' u \<Longrightarrow> fst (getOrCreateBalance u bs) = fst (getOrCreateBalance u bs')"
  by (simp add: getOrCreateBalance_def split: option.splits)

lemma transferFunds_refused:
  assumes "availableBalance (fst (getOrCreateBalance f bs)) <s amount" and "t \<noteq> f"
  shows "fst (transferFunds f t amount bs) = INSUFFICIENT_BALANCE
         \<and> snd (transferFunds f t amount bs) t = Some (fst (getOrCreateBalance t bs))"
  using assms
  by (auto simp: transferFunds_def getOrCreateBalance_def split: option.splits)

lemma fill_events:
  assumes "fill r c bk s = (t, s')"
  shows "events s' = events s @ [OrderUpdate (heap s' c), TradeEvent t]"
  using assms
  by (cases "executeTrade (if side (heap s r) = BUY then r else c)
               (if side (heap s r) = SELL then r else c) (price (heap s c))
               (min (quantity (heap s r) - filledQuantity (heap s r))
                    (quantity (heap s c) - filledQuantity (heap s c))) s")
     (auto simp: fill_def Let_def heap_defs executeTrade_def split: if_splits)

lemma fill_balances:
  assumes "fill r c bk s = (t, s')"
  shows "balances s' =
           balances (snd (executeTrade (if side (heap s r) = BUY then r else c)
               (if side (heap s r) = SELL then r else c) (price (heap s c))
               (min (quantity (heap s r) - filledQuantity (heap s r))
                    (quantity (heap s c) - filledQuantity (heap s c))) s))"
  using assms
  by (cases "executeTrade (if side (heap s r) = BUY then r else c)
               (if side (heap s r) = SELL then r else c) (price (heap s c))
               (min (quantity (heap s r) - filledQuantity (heap s r))
                    (quantity (heap s c) - filledQuantity (heap s c))) s")
     (auto simp: fill_def Let_def heap_defs split: if_splits)

lemma fill_lastTrade:
  assumes "fill r c bk s = (t, s')"
  shows "lastTradePrice (orderBooks s' b) =
           lastTradePrice (orderBooks (snd (executeTrade (if side (heap s r) = BUY then r else c)
               (if side (heap s r) = SELL then r else c) (price (heap s c))
               (min (quantity (heap s r) - filledQuantity (heap s r))
                    (quantity (heap s c) - filledQuantity (heap s c))) s)) b)
       \<and> totalVolume (orderBooks s' b) =
           totalVolume (orderBooks (snd (executeTrade (if side (heap s r) = BUY then r else c)
               (if side (heap s r) = SELL then r else c) (price (heap s c))
               (min (quantity (heap s r) - filledQuantity (heap s r))
                    (quantity (heap s c) - filledQuantity (heap s c))) s)) b)"
  using assms
  by (cases "executeTrade (if side (heap s r) = BUY then r else c)
               (if side (heap s r) = SELL then r else c) (price (heap s c))
               (min (quantity (heap s r) - filledQuantity (heap s r))
                    (quantity (heap s c) - filledQuantity (heap s c))) s")
     (auto simp: fill_def Let_def heap_defs removeOrder_lastTrade split: if_splits)

text \<open>
  Claim C8. Whatever \<open>completeTrade\<close> and \<open>transferFunds\<close> return, a fill yields
  its trade at the price of the resting order, hands it to the trade callback, and sets
  the last trade price and adds to the volume of the book of the trade's symbol; the
  ledger it leaves is the one the two calls leave, their return codes dropped. When the
  buyer's available balance after \<open>completeTrade\<close> is below the trade value,
  \<open>transferFunds\<close> changes no balance: the entry of a seller other than the buyer is
  what it was before the fill (the empty entry if the seller had none).
\<close>

theorem fill_trades_whatever_the_ledger_returns:
  assumes f: "fill r c bk s = (t, s')"
  shows "tradePrice t = price (heap s c)
       \<and> tradeQuantity t = min (quantity (heap s r) - filledQuantity (heap s r))
                               (quantity (heap s c) - filledQuantity (heap s c))
       \<and> events s' = events s @ [OrderUpdate (heap s' c), TradeEvent t]
       \<and> lastTradePrice (orderBooks s' (tradeSymbol t)) = tradePrice t
       \<and> totalVolume (orderBooks s' (tradeSymbol t))
           = totalVolume (orderBooks s (tradeSymbol t)) + tradeQuantity t
       \<and> balances s' =
           snd (transferFunds (buyUserId t) (sellUserId t) (tradePrice t * tradeQuantity t)
                  (snd (completeTrade (buyUserId t)
                          (price (heap s (if side (heap s r) = BUY then r else c)) * tradeQuantity t)
                          (tradePrice t * tradeQuantity t) (balances s))))
       \<and> (sellUserId t \<noteq> buyUserId t
            \<and> availableBalance
                 (fst (getOrCreateBalance (buyUserId t)
                         (snd (completeTrade (buyUserId t)
                                 (price (heap s (if side (heap s r) = BUY then r else c)) * tradeQuantity t)
                                 (tradePrice t * tradeQuantity t) (balances s)))))
                <s tradePrice t * tradeQuantity t
            \<longrightarrow> balances s' (sellUserId t)
                  = Some (fst (getOrCreateBalance (sellUserId t) (balances s))))"
proof -
  let ?buy = "if side (heap s r) = BUY then r else c"
  let ?sell = "if side (heap s r) = SELL then r else c"
  let ?q = "min (quantity (heap s r) - filledQuantity (heap s r))
                (quantity (heap s c) - filledQuantity (heap s c))"
  let ?x = "executeTrade ?buy ?sell (price (heap s c)) ?q s"
  have t: "t = fst ?x" using f by (rule fill_trade)
  have fields: "tradePrice t = price (heap s c)" "tradeQuantity t = ?q"
    "buyUserId t = userId (heap s ?buy)" "sellUserId t = userId (heap s ?sell)"
    "tradeSymbol t = symbol (heap s ?buy)"
    by (simp_all add: t executeTrade_trade)
  have ev: "events s' = events s @ [OrderUpdate (heap s' c), TradeEvent t]"
    using f by (rule fill_events)
  have last: "lastTradePrice (orderBooks s' (tradeSymbol t)) = tradePrice t
       \<and> totalVolume (orderBooks s' (tradeSymbol t))
           = totalVolume (orderBooks s (tradeSymbol t)) + tradeQuantity t"
    using fill_lastTrade [OF f, of "tradeSymbol t"]
    by (simp add: executeTrade_books fields updateLastTrade_def)
  let ?bs1 = "snd (completeTrade (buyUserId t) (price (heap s ?buy) * tradeQuantity t)
                     (tradePrice t * tradeQuantity t) (balances s))"
  have bal: "balances s' =
           snd (transferFunds (buyUserId t) (sellUserId t) (tradePrice t * tradeQuantity t) ?bs1)"
    using fill_balances [OF f] by (simp add: executeTrade_balances fields)
  have refused: "sellUserId t \<noteq> buyUserId t
            \<and> availableBalance (fst (getOrCreateBalance (buyUserId t) ?bs1))
                <s tradePrice t * tradeQuantity t
            \<longrightarrow> balances s' (sellUserId t)
                  = Some (fst (getOrCreateBalance (sellUserId t) (balances s)))"
  proof
    assume a: "sellUserId t \<noteq> buyUserId t
            \<and> availableBalance (fst (getOrCreateBalance (buyUserId t) ?bs1))
                <s tradePrice t * tradeQuantity t"
    then have "balances s' (sellUserId t) = Some (fst (getOrCreateBalance (sellUserId t) ?bs1))"
      using transferFunds_refused [of "buyUserId t" ?bs1 "tradePrice t * tradeQuantity t" "sellUserId t"]
      by (simp add: bal)
    moreover have "?bs1 (sellUserId t) = balances s (sellUserId t)"
      using a by (simp add: completeTrade_other)
    ultimately show "balances s' (sellUserId t)
                  = Some (fst (getOrCreateBalance (sellUserId t) (balances s)))"
      using getOrCreateBalance_entry [of ?bs1 "sellUserId t" "balances s"] by simp
  qed
  from fields(1,2) ev last bal refused show ?thesis by blast
qed

theorem fill_trades_whatever_the_ledger_returns_witness:
  "fst (fill 2 1 ''X'' unfundedReady)
     = \<lparr>tradeId = 1, buyOrderId = 2, sellOrderId = 1, buyUserId = 3, sellUserId = 2,
        tradeSymbol = ''X'', tradePrice = 10000, tradeQuantity = 5\<rparr>
   \<and> emittedTrades (snd (fill 2 1 ''X'' unfundedReady)) = [fst (fill 2 1 ''X'' unfundedReady)]
   \<and> lastTradePrice (orderBooks (snd (fill 2 1 ''X'' unfundedReady)) ''X'') = 10000
   \<and> totalVolume (orderBooks (snd (fill 2 1 ''X'' unfundedReady)) ''X'') = 5
   \<and> balances (snd (fill 2 1 ''X'' unfundedReady)) 2
       = Some \<lparr>balanceUserId = 2, availableBalance = 1000000, lockedBalance = 0\<rparr>"
proof -
  let ?t = "fst (fill 2 1 ''X'' unfundedReady)"
  let ?s' = "snd (fill 2 1 ''X'' unfundedReady)"
  have f: "fill 2 1 ''X'' unfundedReady = (?t, ?s')" by simp
  have t: "?t = \<lparr>tradeId = 1, buyOrderId = 2, sellOrderId = 1, buyUserId = 3, sellUserId = 2,
        tradeSymbol = ''X'', tradePrice = 10000, tradeQuantity = 5\<rparr>"
    by code_simp
  have before: "events unfundedReady = [OrderUpdate (heap unfundedReady 1)]
      \<and> totalVolume (orderBooks unfundedReady ''X'') = 0
      \<and> side (heap unfundedReady 2) = BUY
      \<and> price (heap unfundedReady 2) = 0
      \<and> balances unfundedReady 3 = Some \<lparr>balanceUserId = 3, availableBalance = 0, lockedBalance = 0\<rparr>
      \<and> balances unfundedReady 2 = Some \<lparr>balanceUserId = 2, availableBalance = 1000000, lockedBalance = 0\<rparr>"
    by code_simp
  note c8 = fill_trades_whatever_the_ledger_returns [OF f]
  from c8 have ev: "events ?s' = events unfundedReady @ [OrderUpdate (heap ?s' 1), TradeEvent ?t]"
    by blast
  from c8 have book: "lastTradePrice (orderBooks ?s' (tradeSymbol ?t)) = tradePrice ?t
       \<and> totalVolume (orderBooks ?s' (tradeSymbol ?t))
           = totalVolume (orderBooks unfundedReady (tradeSymbol ?t)) + tradeQuantity ?t"
    by blast
  from c8 have seller: "sellUserId ?t \<noteq> buyUserId ?t
            \<and> availableBalance
                 (fst (getOrCreateBalance (buyUserId ?t)
                         (snd (completeTrade (buyUserId ?t)
                                 (price (heap unfundedReady (if side (heap unfundedReady 2) = BUY then 2 else 1)) * tradeQuantity ?t)
                                 (tradePrice ?t * tradeQuantity ?t) (balances unfundedReady)))))
                <s tradePrice ?t * tradeQuantity ?t
            \<longrightarrow> balances ?s' (sellUserId ?t)
                  = Some (fst (getOrCreateBalance (sellUserId ?t) (balances unfundedReady)))"
    by blast
  have short: "availableBalance
                 (fst (getOrCreateBalance 3
                         (snd (completeTrade 3 (0 * 5) (10000 * 5) (balances unfundedReady)))))
                <s 10000 * 5"
    using before by (simp add: completeTrade_def getOrCreateBalance_def Let_def word_sless_alt)
  from seller short before
  have "balances ?s' 2 = Some \<lparr>balanceUserId = 2, availableBalance = 1000000, lockedBalance = 0\<rparr>"
    by (simp add: t getOrCreateBalance_def)
  with ev book before show ?thesis
    by (simp add: t emittedTrades_def)
qed

end
